theory Spec2Isabelle
  imports Complex_Main "HOL-Library.Word" "HOL-Library.Signed_Division"
begin

unbundle bit_operations_syntax

section \<open>Machine types (core/types.hpp)\<close>

text \<open>
  The fixed-width integers of \<^verbatim>\<open>types.hpp\<close>. A signed type is the word of its width,
  read through \<open>sint\<close>; arithmetic wraps (the build asks for C++20, where conversions
  and shifts of signed values are modular).
\<close>

type_synonym byte = "8 word"
type_synonym u8 = "8 word"
type_synonym i16 = "16 word"
type_synonym u16 = "16 word"
type_synonym i32 = "32 word"
type_synonym u32 = "32 word"
type_synonym i64 = "64 word"
type_synonym u64 = "64 word"

text \<open>The three \<^verbatim>\<open>std::runtime_error\<close>s that \<^verbatim>\<open>Buffer\<close> throws, by message.\<close>

datatype error =
    BufferUnderflow
  | VarIntTooBig
  | InvalidStringLength

section \<open>Buffer (core/buffer.hpp)\<close>

text \<open>
  A member \<^verbatim>\<open>x_\<close> of the class is the field \<open>m_x\<close> here, and the methods \<^verbatim>\<open>write\<close> and
  \<^verbatim>\<open>read\<close> are \<open>write_bytes\<close> and \<open>read_bytes\<close>.
  \<open>m_data\<close> is the memory block the buffer points at, so its length is the capacity.
  Only the first \<open>m_size\<close> bytes have been written by the program; the block comes from
  \<^verbatim>\<open>g_buffer_pool.allocate\<close>, which does not initialise it, so the bytes behind
  \<open>m_size\<close> are whatever the allocator left there: \<open>m_pool\<close> gives that content by offset
  and is a parameter of every buffer.
\<close>

record Buffer =
  m_data :: "byte list"
  m_size :: nat
  m_read_pos :: nat
  m_write_pos :: nat
  m_pool :: "nat \<Rightarrow> byte"

definition m_capacity :: "Buffer \<Rightarrow> nat" where
  "m_capacity b = length (m_data b)"

text \<open>\<^verbatim>\<open>Buffer()\<close>: no memory, everything zero.\<close>

definition Buffer_empty :: "(nat \<Rightarrow> byte) \<Rightarrow> Buffer" where
  "Buffer_empty pool =
     \<lparr>m_data = [], m_size = 0, m_read_pos = 0, m_write_pos = 0, m_pool = pool\<rparr>"

text \<open>\<^verbatim>\<open>Buffer(initial_capacity)\<close>: a fresh block of that many bytes.\<close>

definition Buffer_cap :: "(nat \<Rightarrow> byte) \<Rightarrow> nat \<Rightarrow> Buffer" where
  "Buffer_cap pool initial_capacity =
     \<lparr>m_data = map pool [0..<initial_capacity], m_size = 0, m_read_pos = 0, m_write_pos = 0,
      m_pool = pool\<rparr>"

text \<open>\<^verbatim>\<open>Buffer(data, size)\<close>: a view of existing bytes, all of them readable.\<close>

definition Buffer_view :: "(nat \<Rightarrow> byte) \<Rightarrow> byte list \<Rightarrow> Buffer" where
  "Buffer_view pool bytes =
     \<lparr>m_data = bytes, m_size = length bytes, m_read_pos = 0, m_write_pos = length bytes,
      m_pool = pool\<rparr>"

definition ensure_capacity :: "nat \<Rightarrow> Buffer \<Rightarrow> Buffer" where
  "ensure_capacity needed b =
     (if m_capacity b \<ge> needed then b
      else let new_capacity = max needed (m_capacity b * 2)
           in b\<lparr>m_data := take (m_size b) (m_data b) @ map (m_pool b) [m_size b..<new_capacity]\<rparr>)"

text \<open>\<^verbatim>\<open>write(data, len)\<close>: grow, copy at the write cursor, advance it.\<close>

definition write_bytes :: "byte list \<Rightarrow> Buffer \<Rightarrow> Buffer" where
  "write_bytes src b =
     (let b1 = ensure_capacity (m_write_pos b + length src) b;
          d = take (m_write_pos b1) (m_data b1) @ src
                @ drop (m_write_pos b1 + length src) (m_data b1);
          wp = m_write_pos b1 + length src
      in b1\<lparr>m_data := d, m_write_pos := wp, m_size := max (m_size b1) wp\<rparr>)"

definition write_byte :: "byte \<Rightarrow> Buffer \<Rightarrow> Buffer" where
  "write_byte v b = write_bytes [v] b"

text \<open>
  \<^verbatim>\<open>write_varint\<close>: the loop runs on the unsigned value; each round emits the low byte
  with the top bit set and shifts by seven.
\<close>

function write_varint_loop :: "u32 \<Rightarrow> Buffer \<Rightarrow> Buffer" where
  "write_varint_loop uvalue b =
     (if uvalue \<ge> 0x80
      then write_varint_loop (drop_bit 7 uvalue) (write_byte (ucast (uvalue OR 0x80)) b)
      else write_byte (ucast uvalue) b)"
  by pat_completeness auto

termination write_varint_loop
  by (relation "measure (\<lambda>(u, b). unat u)")
     (auto simp add: word_le_nat_alt drop_bit_eq_div unat_div)

declare write_varint_loop.simps [simp del]

definition write_varint :: "i32 \<Rightarrow> Buffer \<Rightarrow> Buffer" where
  "write_varint v b = write_varint_loop v b"

text \<open>\<^verbatim>\<open>read(dest, len)\<close> copies what is there, at most \<open>len\<close> bytes, and never throws.\<close>

definition read_bytes :: "nat \<Rightarrow> Buffer \<Rightarrow> byte list \<times> Buffer" where
  "read_bytes len b =
     (let available = m_size b - m_read_pos b;
          to_read = min len available
      in if to_read > 0
         then (take to_read (drop (m_read_pos b) (m_data b)),
               b\<lparr>m_read_pos := m_read_pos b + to_read\<rparr>)
         else ([], b))"

definition read_byte :: "Buffer \<Rightarrow> error + (byte \<times> Buffer)" where
  "read_byte b =
     (if m_read_pos b \<ge> m_size b then Inl BufferUnderflow
      else Inr (m_data b ! m_read_pos b, b\<lparr>m_read_pos := m_read_pos b + 1\<rparr>))"

text \<open>
  \<^verbatim>\<open>read_varint\<close>: a do-while over \<open>result\<close> and \<open>shift\<close>; the sixth byte is refused
  because \<open>shift\<close> has reached 35 by then.
\<close>

function read_varint_loop :: "i32 \<Rightarrow> nat \<Rightarrow> Buffer \<Rightarrow> error + (i32 \<times> Buffer)" where
  "read_varint_loop result shift b =
     (if shift \<ge> 32 then Inl VarIntTooBig
      else case read_byte b of
             Inl e \<Rightarrow> Inl e
           | Inr (x, b') \<Rightarrow>
               let result' = result OR push_bit shift (ucast (x AND 0x7F))
               in if x AND 0x80 \<noteq> 0 then read_varint_loop result' (shift + 7) b'
                  else Inr (result', b'))"
  by pat_completeness auto

termination read_varint_loop
  by (relation "measure (\<lambda>(r, s, b). 32 - s)") auto

declare read_varint_loop.simps [simp del]

definition read_varint :: "Buffer \<Rightarrow> error + (i32 \<times> Buffer)" where
  "read_varint b = read_varint_loop 0 0 b"

text \<open>
  \<^verbatim>\<open>read_string\<close>: the length is checked against \<open>[0, 32767]\<close>; the string is created
  with that many NUL characters and \<^verbatim>\<open>read\<close> then overwrites as many of them as the
  buffer still holds. The count \<^verbatim>\<open>read\<close> returns is not looked at. A
  \<^verbatim>\<open>std::string\<close> is its list of bytes.
\<close>

definition read_string :: "Buffer \<Rightarrow> error + (byte list \<times> Buffer)" where
  "read_string b =
     (case read_varint b of
        Inl e \<Rightarrow> Inl e
      | Inr (len, b1) \<Rightarrow>
          if sint len < 0 \<or> sint len > 32767 then Inl InvalidStringLength
          else let n = nat (sint len);
                   (got, b2) = read_bytes n b1;
                   result = got @ replicate (n - length got) 0
               in Inr (result, b2))"

definition write_string :: "byte list \<Rightarrow> Buffer \<Rightarrow> Buffer" where
  "write_string str b = write_bytes str (write_varint (word_of_nat (length str)) b)"

text \<open>
  \<^verbatim>\<open>write_be<T>\<close> and \<^verbatim>\<open>read_be<T>\<close> for an integral \<open>T\<close> of \<open>LENGTH('a)\<close> bits:
  most significant byte first.
\<close>

definition write_be :: "'a::len word \<Rightarrow> Buffer \<Rightarrow> Buffer" where
  "write_be v b =
     (if LENGTH('a) div 8 = 1 then write_byte (ucast v) b
      else foldl (\<lambda>b i. write_byte (ucast (drop_bit (i * 8) v)) b) b
             (rev [0..<LENGTH('a) div 8]))"

fun read_be_loop :: "nat \<Rightarrow> 'a::len word \<Rightarrow> Buffer \<Rightarrow> error + ('a word \<times> Buffer)" where
  "read_be_loop 0 result b = Inr (result, b)"
| "read_be_loop (Suc n) result b =
     (case read_byte b of
        Inl e \<Rightarrow> Inl e
      | Inr (x, b') \<Rightarrow> read_be_loop n (push_bit 8 result OR ucast x) b')"

definition read_be :: "Buffer \<Rightarrow> error + ('a::len word \<times> Buffer)" where
  "read_be b =
     (if LENGTH('a) div 8 = 1
      then (case read_byte b of Inl e \<Rightarrow> Inl e | Inr (x, b') \<Rightarrow> Inr (ucast x, b'))
      else read_be_loop (LENGTH('a) div 8) 0 b)"

definition readable :: "Buffer \<Rightarrow> nat" where
  "readable b = m_size b - m_read_pos b"

section \<open>Block positions on the wire (network/chunk_packets.hpp)\<close>

text \<open>\<^verbatim>\<open>struct Position { i32 x, y, z; }\<close> of \<^verbatim>\<open>types.hpp\<close>.\<close>

record Position =
  pos_x :: i32
  pos_y :: i32
  pos_z :: i32

text \<open>
  The 64-bit value that \<^verbatim>\<open>BlockChangePacket::write\<close> computes before it calls
  \<^verbatim>\<open>write_be<u64>\<close>. Each coordinate is masked as an \<^verbatim>\<open>int\<close>, converted to \<^verbatim>\<open>u64\<close>
  (a sign-extending conversion, \<open>scast\<close>) and shifted; \<^verbatim>\<open><<\<close> binds tighter than
  \<^verbatim>\<open>|\<close>.
\<close>

definition BlockChangePacket_encode_pos :: "Position \<Rightarrow> u64" where
  "BlockChangePacket_encode_pos position =
     push_bit 38 (scast (pos_x position AND 0x3FFFFFF))
     OR push_bit 12 (scast (pos_z position AND 0x3FFFFFF))
     OR scast (pos_y position AND 0xFFF)"

text \<open>
  What \<^verbatim>\<open>BlockChangePacket::read\<close> does with the value \<^verbatim>\<open>read_be<u64>\<close> returned:
  three narrowing conversions to \<^verbatim>\<open>i32\<close>, then the three signed comparisons that
  extend the sign.
\<close>

definition BlockChangePacket_decode_pos :: "u64 \<Rightarrow> Position" where
  "BlockChangePacket_decode_pos encoded_pos =
     (let x0 = (ucast (drop_bit 38 encoded_pos) :: i32);
          z0 = (ucast (drop_bit 12 encoded_pos AND 0x3FFFFFF) :: i32);
          y0 = (ucast (encoded_pos AND 0xFFF) :: i32);
          x1 = (if sint x0 \<ge> 0x2000000 then x0 - 0x4000000 else x0);
          z1 = (if sint z0 \<ge> 0x2000000 then z0 - 0x4000000 else z0);
          y1 = (if sint y0 \<ge> 0x800 then y0 - 0x1000 else y0)
      in \<lparr>pos_x = x1, pos_y = y1, pos_z = z1\<rparr>)"

section \<open>Blocks, sections and chunks (world/block.hpp, world/chunk.hpp)\<close>

text \<open>
  A \<^verbatim>\<open>Block\<close> holds nothing but its 16-bit id, so it is that id.
\<close>

type_synonym BlockId = u16
type_synonym Block = u16

definition AIR :: BlockId where "AIR = 0"
definition STONE :: BlockId where "STONE = 1"
definition GRASS_BLOCK :: BlockId where "GRASS_BLOCK = 2"
definition DIRT :: BlockId where "DIRT = 3"
definition BEDROCK :: BlockId where "BEDROCK = 7"

definition is_air :: "Block \<Rightarrow> bool" where
  "is_air block = (block = AIR)"

definition WORLD_MIN_Y :: i32 where "WORLD_MIN_Y = - 64"
definition WORLD_MAX_Y :: i32 where "WORLD_MAX_Y = 320"
definition SECTION_SIZE :: i32 where "SECTION_SIZE = 16"
definition BLOCKS_PER_SECTION :: nat where "BLOCKS_PER_SECTION = 16 * 16 * 16"

text \<open>
  Division of two \<^verbatim>\<open>i32\<close> values as C++ does it, rounding towards zero, and the
  remainder that goes with it.
\<close>

definition idiv :: "i32 \<Rightarrow> i32 \<Rightarrow> i32" where
  "idiv a b = word_of_int (sint a sdiv sint b)"

definition imod :: "i32 \<Rightarrow> i32 \<Rightarrow> i32" where
  "imod a b = word_of_int (sint a smod sint b)"

definition SECTIONS_PER_CHUNK :: i32 where
  "SECTIONS_PER_CHUNK = idiv (WORLD_MAX_Y - WORLD_MIN_Y) 16"

record ChunkSection =
  blocks :: "Block list"
  block_light :: "u8 list"
  sky_light :: "u8 list"
  block_count :: i16

text \<open>The constructor: 4096 air blocks, no block light, full sky light.\<close>

definition ChunkSection_new :: ChunkSection where
  "ChunkSection_new =
     \<lparr>blocks = replicate BLOCKS_PER_SECTION AIR,
      block_light = replicate (BLOCKS_PER_SECTION div 2) 0,
      sky_light = replicate (BLOCKS_PER_SECTION div 2) 0xFF,
      block_count = 0\<rparr>"

definition section_index :: "i32 \<Rightarrow> i32 \<Rightarrow> i32 \<Rightarrow> i32" where
  "section_index x y z = (y * SECTION_SIZE + z) * SECTION_SIZE + x"

definition index_ok :: "i32 \<Rightarrow> bool" where
  "index_ok index \<longleftrightarrow> sint index \<ge> 0 \<and> sint index < int BLOCKS_PER_SECTION"

definition ChunkSection_get_block :: "ChunkSection \<Rightarrow> i32 \<Rightarrow> i32 \<Rightarrow> i32 \<Rightarrow> Block" where
  "ChunkSection_get_block s x y z =
     (let index = section_index x y z
      in if index_ok index then blocks s ! unat index else AIR)"

definition ChunkSection_set_block ::
  "i32 \<Rightarrow> i32 \<Rightarrow> i32 \<Rightarrow> Block \<Rightarrow> ChunkSection \<Rightarrow> ChunkSection" where
  "ChunkSection_set_block x y z block s =
     (let index = section_index x y z
      in if index_ok index
         then let old_block = blocks s ! unat index;
                  s1 = s\<lparr>blocks := (blocks s)[unat index := block]\<rparr>
              in if is_air old_block \<and> \<not> is_air block
                 then s1\<lparr>block_count := block_count s1 + 1\<rparr>
                 else if \<not> is_air old_block \<and> is_air block
                 then s1\<lparr>block_count := block_count s1 - 1\<rparr>
                 else s1
         else s)"

text \<open>
  The two nibble arrays: sample \<open>index\<close> lives in byte \<open>index / 2\<close>, odd samples in the
  upper half.
\<close>

definition get_nibble :: "u8 list \<Rightarrow> i32 \<Rightarrow> u8" where
  "get_nibble arr index =
     (let byte_idx = unat (idiv index 2);
          upper = (imod index 2 = 1)
      in if upper then drop_bit 4 (arr ! byte_idx) else arr ! byte_idx AND 0xF)"

definition set_nibble :: "u8 list \<Rightarrow> i32 \<Rightarrow> u8 \<Rightarrow> u8 list" where
  "set_nibble arr index light0 =
     (let byte_idx = unat (idiv index 2);
          upper = (imod index 2 = 1);
          light = light0 AND 0xF
      in if upper then arr[byte_idx := (arr ! byte_idx AND 0x0F) OR push_bit 4 light]
         else arr[byte_idx := (arr ! byte_idx AND 0xF0) OR light])"

definition ChunkSection_get_block_light :: "ChunkSection \<Rightarrow> i32 \<Rightarrow> i32 \<Rightarrow> i32 \<Rightarrow> u8" where
  "ChunkSection_get_block_light s x y z =
     (let index = section_index x y z
      in if \<not> index_ok index then 0 else get_nibble (block_light s) index)"

definition ChunkSection_set_block_light ::
  "i32 \<Rightarrow> i32 \<Rightarrow> i32 \<Rightarrow> u8 \<Rightarrow> ChunkSection \<Rightarrow> ChunkSection" where
  "ChunkSection_set_block_light x y z light s =
     (let index = section_index x y z
      in if \<not> index_ok index then s
         else s\<lparr>block_light := set_nibble (block_light s) index light\<rparr>)"

definition ChunkSection_get_sky_light :: "ChunkSection \<Rightarrow> i32 \<Rightarrow> i32 \<Rightarrow> i32 \<Rightarrow> u8" where
  "ChunkSection_get_sky_light s x y z =
     (let index = section_index x y z
      in if \<not> index_ok index then 0 else get_nibble (sky_light s) index)"

definition ChunkSection_set_sky_light ::
  "i32 \<Rightarrow> i32 \<Rightarrow> i32 \<Rightarrow> u8 \<Rightarrow> ChunkSection \<Rightarrow> ChunkSection" where
  "ChunkSection_set_sky_light x y z light s =
     (let index = section_index x y z
      in if \<not> index_ok index then s
         else s\<lparr>sky_light := set_nibble (sky_light s) index light\<rparr>)"

definition is_empty :: "ChunkSection \<Rightarrow> bool" where
  "is_empty s = (block_count s = 0)"

text \<open>
  A chunk: its coordinate, the 24 section slots (\<open>None\<close> is the null pointer of a slot
  never written to) and the two flags. The access time stamp and the mutex are left
  out; no property below depends on them.
\<close>

type_synonym ChunkPos = "i32 \<times> i32"

record Chunk =
  m_position :: ChunkPos
  m_sections :: "ChunkSection option list"
  m_loaded :: bool
  m_dirty :: bool

definition Chunk_new :: "ChunkPos \<Rightarrow> Chunk" where
  "Chunk_new pos =
     \<lparr>m_position = pos, m_sections = replicate (unat SECTIONS_PER_CHUNK) None,
      m_loaded = False, m_dirty = False\<rparr>"

definition get_section_index :: "i32 \<Rightarrow> i32" where
  "get_section_index y = idiv (y - WORLD_MIN_Y) 16"

definition section_idx_ok :: "i32 \<Rightarrow> bool" where
  "section_idx_ok section_idx \<longleftrightarrow>
     \<not> (sint section_idx < 0 \<or> sint section_idx \<ge> sint SECTIONS_PER_CHUNK)"

definition local_y_of :: "i32 \<Rightarrow> i32 \<Rightarrow> i32" where
  "local_y_of y section_idx = y - (section_idx * 16 + WORLD_MIN_Y)"

definition Chunk_get_block :: "Chunk \<Rightarrow> i32 \<Rightarrow> i32 \<Rightarrow> i32 \<Rightarrow> Block" where
  "Chunk_get_block c x y z =
     (let section_idx = get_section_index y
      in if \<not> section_idx_ok section_idx then AIR
         else case m_sections c ! unat section_idx of
                None \<Rightarrow> AIR
              | Some section \<Rightarrow>
                  ChunkSection_get_block section x (local_y_of y section_idx) z)"

text \<open>
  \<^verbatim>\<open>get_or_create_section\<close> followed by the write; outside the section range nothing
  happens, not even the dirty flag.
\<close>

definition get_or_create_section :: "i32 \<Rightarrow> Chunk \<Rightarrow> (ChunkSection \<times> Chunk) option" where
  "get_or_create_section section_idx c =
     (if \<not> section_idx_ok section_idx then None
      else case m_sections c ! unat section_idx of
             None \<Rightarrow> Some (ChunkSection_new,
                           c\<lparr>m_sections := (m_sections c)[unat section_idx := Some ChunkSection_new]\<rparr>)
           | Some section \<Rightarrow> Some (section, c))"

definition Chunk_set_block :: "i32 \<Rightarrow> i32 \<Rightarrow> i32 \<Rightarrow> Block \<Rightarrow> Chunk \<Rightarrow> Chunk" where
  "Chunk_set_block x y z block c =
     (let section_idx = get_section_index y
      in case get_or_create_section section_idx c of
           None \<Rightarrow> c
         | Some (section, c1) \<Rightarrow>
             let section' = ChunkSection_set_block x (local_y_of y section_idx) z block section
             in c1\<lparr>m_sections := (m_sections c1)[unat section_idx := Some section'],
                   m_dirty := True\<rparr>)"

definition Chunk_get_block_light :: "Chunk \<Rightarrow> i32 \<Rightarrow> i32 \<Rightarrow> i32 \<Rightarrow> u8" where
  "Chunk_get_block_light c x y z =
     (let section_idx = get_section_index y
      in if \<not> section_idx_ok section_idx then 0
         else case m_sections c ! unat section_idx of
                None \<Rightarrow> 0
              | Some section \<Rightarrow>
                  ChunkSection_get_block_light section x (local_y_of y section_idx) z)"

definition Chunk_set_block_light :: "i32 \<Rightarrow> i32 \<Rightarrow> i32 \<Rightarrow> u8 \<Rightarrow> Chunk \<Rightarrow> Chunk" where
  "Chunk_set_block_light x y z light c =
     (let section_idx = get_section_index y
      in case get_or_create_section section_idx c of
           None \<Rightarrow> c
         | Some (section, c1) \<Rightarrow>
             let section' =
                   ChunkSection_set_block_light x (local_y_of y section_idx) z light section
             in c1\<lparr>m_sections := (m_sections c1)[unat section_idx := Some section'],
                   m_dirty := True\<rparr>)"

definition Chunk_get_sky_light :: "Chunk \<Rightarrow> i32 \<Rightarrow> i32 \<Rightarrow> i32 \<Rightarrow> u8" where
  "Chunk_get_sky_light c x y z =
     (let section_idx = get_section_index y
      in if \<not> section_idx_ok section_idx then 0
         else case m_sections c ! unat section_idx of
                None \<Rightarrow> 15
              | Some section \<Rightarrow>
                  ChunkSection_get_sky_light section x (local_y_of y section_idx) z)"

definition Chunk_set_sky_light :: "i32 \<Rightarrow> i32 \<Rightarrow> i32 \<Rightarrow> u8 \<Rightarrow> Chunk \<Rightarrow> Chunk" where
  "Chunk_set_sky_light x y z light c =
     (let section_idx = get_section_index y
      in case get_or_create_section section_idx c of
           None \<Rightarrow> c
         | Some (section, c1) \<Rightarrow>
             let section' =
                   ChunkSection_set_sky_light x (local_y_of y section_idx) z light section
             in c1\<lparr>m_sections := (m_sections c1)[unat section_idx := Some section'],
                   m_dirty := True\<rparr>)"

definition get_sections :: "Chunk \<Rightarrow> ChunkSection option list" where
  "get_sections c = m_sections c"

section \<open>Region persistence (world/world_persistence.hpp)\<close>

text \<open>
  The coordinates of block number \<open>i\<close> of a section, as both loops compute them from
  the \<^verbatim>\<open>size_t\<close> counter.
\<close>

definition block_x :: "nat \<Rightarrow> i32" where "block_x i = word_of_nat (i mod 16)"
definition block_y :: "nat \<Rightarrow> i32" where "block_y i = word_of_nat ((i div 256) mod 16)"
definition block_z :: "nat \<Rightarrow> i32" where "block_z i = word_of_nat ((i div 16) mod 16)"

definition serialize_section :: "ChunkSection option \<Rightarrow> Buffer \<Rightarrow> Buffer" where
  "serialize_section section b =
     (case section of
        None \<Rightarrow> write_byte 0 b
      | Some s \<Rightarrow>
          let b1 = write_byte 1 b;
              b2 = write_be (block_count s) b1;
              b3 = foldl (\<lambda>b i. write_be (ChunkSection_get_block s (block_x i) (block_y i) (block_z i)) b)
                     b2 [0..<BLOCKS_PER_SECTION];
              b4 = write_bytes (block_light s) b3
          in write_bytes (sky_light s) b4)"

definition serialize_chunk :: "Chunk \<Rightarrow> Buffer \<Rightarrow> Buffer" where
  "serialize_chunk chunk buffer =
     (let sections = get_sections chunk;
          b1 = write_be (word_of_nat (length sections) :: i32) buffer
      in foldl (\<lambda>b section. serialize_section section b) b1 sections)"

text \<open>
  Reading into one of the fixed arrays of a section: \<^verbatim>\<open>read\<close> overwrites as many
  leading bytes as the buffer still holds.
\<close>

definition read_into :: "u8 list \<Rightarrow> Buffer \<Rightarrow> u8 list \<times> Buffer" where
  "read_into arr b =
     (let (got, b') = read_bytes (length arr) b in (got @ drop (length got) arr, b'))"

text \<open>The inner loop of \<^verbatim>\<open>deserialize_chunk\<close>: blocks \<open>i, \<dots>, i + n - 1\<close> of the section.\<close>

fun read_blocks :: "nat \<Rightarrow> nat \<Rightarrow> ChunkSection \<Rightarrow> Buffer \<Rightarrow> error + (ChunkSection \<times> Buffer)" where
  "read_blocks 0 i section b = Inr (section, b)"
| "read_blocks (Suc n) i section b =
     (case read_be b of
        Inl e \<Rightarrow> Inl e
      | Inr (block_id :: u16, b') \<Rightarrow>
          read_blocks n (Suc i)
            (ChunkSection_set_block (block_x i) (block_y i) (block_z i) block_id section) b')"

text \<open>
  What one round of the outer loop builds once the presence byte was non-zero: a new
  section with the stored block count, the blocks set one by one (which counts the
  non-air ones a second time), the two light arrays.
\<close>

definition deserialize_section :: "Buffer \<Rightarrow> error + (ChunkSection \<times> Buffer)" where
  "deserialize_section b =
     (case read_be b of
        Inl e \<Rightarrow> Inl e
      | Inr (count :: i16, b1) \<Rightarrow>
          (case read_blocks BLOCKS_PER_SECTION 0 (ChunkSection_new\<lparr>block_count := count\<rparr>) b1 of
             Inl e \<Rightarrow> Inl e
           | Inr (s1, b2) \<Rightarrow>
               let (bl, b3) = read_into (block_light s1) b2;
                   (sl, b4) = read_into (sky_light s1) b3
               in Inr (s1\<lparr>block_light := bl, sky_light := sl\<rparr>, b4)))"

text \<open>
  The outer loop, \<open>n\<close> rounds to go. The section of a round is a local
  \<^verbatim>\<open>std::unique_ptr\<close> that is destroyed at the end of the round: the source never
  stores it in the chunk (the class \<^verbatim>\<open>Chunk\<close> offers no way to), so the chunk passes
  through unchanged.
\<close>

fun deserialize_sections :: "nat \<Rightarrow> Chunk \<Rightarrow> Buffer \<Rightarrow> error + (Chunk \<times> Buffer)" where
  "deserialize_sections 0 chunk b = Inr (chunk, b)"
| "deserialize_sections (Suc n) chunk b =
     (case read_byte b of
        Inl e \<Rightarrow> Inl e
      | Inr (has_section, b1) \<Rightarrow>
          if has_section = 0 then deserialize_sections n chunk b1
          else (case deserialize_section b1 of
                  Inl e \<Rightarrow> Inl e
                | Inr (section, b2) \<Rightarrow> deserialize_sections n chunk b2))"

definition deserialize_chunk :: "ChunkPos \<Rightarrow> Buffer \<Rightarrow> error + Chunk" where
  "deserialize_chunk chunk_pos buffer =
     (let chunk = Chunk_new chunk_pos
      in case read_be buffer of
           Inl e \<Rightarrow> Inl e
         | Inr (section_count :: i32, b1) \<Rightarrow>
             (case deserialize_sections (nat (sint section_count)) chunk b1 of
                Inl e \<Rightarrow> Inl e
              | Inr (chunk1, b2) \<Rightarrow> Inr (chunk1\<lparr>m_loaded := True, m_dirty := False\<rparr>)))"

text \<open>
  A region file: the bytes of the file, whether the stream is open, and the two header
  tables held in memory. Stream operations on an open file are taken to succeed.
\<close>

record RegionFile =
  rf_file :: "byte list"
  rf_is_open :: bool
  rf_locations :: "u32 list"
  rf_timestamps :: "u32 list"
  rf_dirty :: bool

text \<open>
  The persistence state gives, for each region coordinate, the region file as
  \<^verbatim>\<open>get_region_file\<close> returns it (opened and its header loaded at first use).
\<close>

type_synonym WorldPersistence = "i32 \<times> i32 \<Rightarrow> RegionFile"

definition get_region_coords :: "ChunkPos \<Rightarrow> i32 \<times> i32" where
  "get_region_coords chunk_pos = (signed_drop_bit 5 (fst chunk_pos), signed_drop_bit 5 (snd chunk_pos))"

definition get_local_chunk_coords :: "ChunkPos \<Rightarrow> i32 \<times> i32" where
  "get_local_chunk_coords chunk_pos = (fst chunk_pos AND 31, snd chunk_pos AND 31)"

definition chunk_index_of :: "ChunkPos \<Rightarrow> nat" where
  "chunk_index_of chunk_pos =
     (let (local_x, local_z) = get_local_chunk_coords chunk_pos in unat (local_z * 32 + local_x))"

text \<open>
  A table entry as the header stores it: \<^verbatim>\<open>htobe32\<close> swaps the bytes and the value is
  written in host order, which on a little-endian host puts the most significant byte
  first.
\<close>

definition be32 :: "u32 \<Rightarrow> byte list" where
  "be32 v = [ucast (drop_bit 24 v), ucast (drop_bit 16 v), ucast (drop_bit 8 v), ucast v]"

text \<open>
  \<^verbatim>\<open>be32toh\<close>, and a table entry as \<^verbatim>\<open>load_region_header\<close> reads it: four bytes
  of the file are copied into a \<^verbatim>\<open>u32\<close> (the first byte is the least significant one
  on a little-endian host) and \<^verbatim>\<open>be32toh\<close> swaps them.
\<close>

definition be32toh :: "u32 \<Rightarrow> u32" where
  "be32toh v =
     (drop_bit 24 (v AND 0xFF000000) OR drop_bit 8 (v AND 0x00FF0000))
     OR (push_bit 8 (v AND 0x0000FF00) OR push_bit 24 (v AND 0x000000FF))"

definition host_u32 :: "byte list \<Rightarrow> u32" where
  "host_u32 bs =
     (ucast (bs ! 0) OR push_bit 8 (ucast (bs ! 1)))
     OR (push_bit 16 (ucast (bs ! 2)) OR push_bit 24 (ucast (bs ! 3)))"

definition read_table :: "byte list \<Rightarrow> nat \<Rightarrow> u32 list" where
  "read_table file start =
     map (\<lambda>i. be32toh (host_u32 (take 4 (drop (start + 4 * i) file)))) [0..<1024]"

text \<open>
  \<^verbatim>\<open>load_region_header\<close> reads the two tables from the first 8192 bytes of the file.
  On a shorter file a read fails and leaves \<^verbatim>\<open>location\<close> or \<^verbatim>\<open>timestamp\<close>
  uninitialised; the entries are indeterminate then, which is \<open>None\<close> here.
\<close>

definition load_region_header :: "RegionFile \<Rightarrow> RegionFile option" where
  "load_region_header rf =
     (if length (rf_file rf) < 8192 then None
      else Some (rf\<lparr>rf_locations := read_table (rf_file rf) 0,
                     rf_timestamps := read_table (rf_file rf) 4096\<rparr>))"

text \<open>
  The part of \<^verbatim>\<open>get_region_file\<close> that runs at the first use of a region whose file
  exists with the content \<open>bytes\<close>: a \<^verbatim>\<open>RegionFile\<close> is constructed (zeroed tables, not
  dirty), the file is opened and the header is loaded.
\<close>

definition RegionFile_new :: RegionFile where
  "RegionFile_new =
     \<lparr>rf_file = [], rf_is_open = False, rf_locations = replicate 1024 0,
      rf_timestamps = replicate 1024 0, rf_dirty = False\<rparr>"

definition open_region_file :: "byte list \<Rightarrow> RegionFile option" where
  "open_region_file bytes = load_region_header (RegionFile_new\<lparr>rf_file := bytes, rf_is_open := True\<rparr>)"

definition save_region_header :: "RegionFile \<Rightarrow> RegionFile" where
  "save_region_header rf =
     (let header = concat (map be32 (rf_locations rf)) @ concat (map be32 (rf_timestamps rf))
      in rf\<lparr>rf_file := header @ drop (length header) (rf_file rf)\<rparr>)"

text \<open>
  \<^verbatim>\<open>save_chunk\<close>; \<open>now\<close> is the clock value stored as the time stamp and \<open>pool\<close> the
  memory of the 64 KiB scratch buffer. The result is the returned flag, the chunk
  (whose dirty flag is cleared on success) and the new persistence state.
\<close>

definition WorldPersistence_save_chunk ::
  "(nat \<Rightarrow> byte) \<Rightarrow> u32 \<Rightarrow> Chunk \<Rightarrow> WorldPersistence \<Rightarrow> bool \<times> Chunk \<times> WorldPersistence" where
  "WorldPersistence_save_chunk pool now chunk wp =
     (if \<not> m_dirty chunk then (True, chunk, wp)
      else let region = get_region_coords (m_position chunk);
               region_file = wp region
           in if \<not> rf_is_open region_file then (False, chunk, wp)
              else let chunk_data = serialize_chunk chunk (Buffer_cap pool 65536);
                       bytes = take (m_size chunk_data) (m_data chunk_data);
                       chunk_index = chunk_index_of (m_position chunk);
                       sector_offset = (word_of_nat (length (rf_file region_file)) :: u32) div 4096;
                       sector_count = (word_of_nat ((m_size chunk_data + 4095) div 4096) :: u32);
                       padding = (4096 - m_size chunk_data mod 4096) mod 4096;
                       rf1 = region_file\<lparr>rf_file := rf_file region_file @ bytes @ replicate padding 0\<rparr>;
                       rf2 = rf1\<lparr>rf_locations := (rf_locations rf1)
                                      [chunk_index := push_bit 8 sector_offset OR (sector_count AND 0xFF)],
                                  rf_timestamps := (rf_timestamps rf1)[chunk_index := now],
                                  rf_dirty := True\<rparr>;
                       rf3 = save_region_header rf2
                   in (True, chunk\<lparr>m_dirty := False\<rparr>, wp(region := rf3)))"

text \<open>
  \<^verbatim>\<open>load_chunk\<close>: the null pointer is \<open>None\<close>. The read fills a zeroed vector of
  \<open>sector_count * 4096\<close> bytes with what the file holds from the sector on; an
  exception of the decoder is caught and gives the null pointer.
\<close>

definition WorldPersistence_load_chunk ::
  "(nat \<Rightarrow> byte) \<Rightarrow> ChunkPos \<Rightarrow> WorldPersistence \<Rightarrow> Chunk option" where
  "WorldPersistence_load_chunk pool chunk_pos wp =
     (let region_file = wp (get_region_coords chunk_pos)
      in if \<not> rf_is_open region_file then None
         else let location = rf_locations region_file ! chunk_index_of chunk_pos
              in if location = 0 then None
                 else let sector_offset = drop_bit 8 location AND 0xFFFFFF;
                          sector_count = location AND 0xFF
                      in if sector_offset = 0 \<or> sector_count = 0 then None
                         else let n = unat (sector_count * 4096);
                                  got = take n (drop (unat (sector_offset * 4096)) (rf_file region_file));
                                  chunk_data = got @ replicate (n - length got) 0
                              in case deserialize_chunk chunk_pos (Buffer_view pool chunk_data) of
                                   Inl e \<Rightarrow> None
                                 | Inr chunk \<Rightarrow> Some chunk)"

section \<open>Player sessions and the player registry (player part of entity/entity.hpp)\<close>

text \<open>
  The values the loop variable of \<^verbatim>\<open>for (i32 d = -r; d <= r; ++d)\<close> takes. The view
  distance is 10 from the constructor and \<^verbatim>\<open>set_view_distance\<close> clamps it to
  \<open>[2, 32]\<close>, so the counter does not overflow.
\<close>

definition offsets :: "i32 \<Rightarrow> i32 list" where
  "offsets r = map word_of_int [- sint r .. sint r]"

text \<open>The test \<^verbatim>\<open>dx * dx + dz * dz <= view_distance_ * view_distance_\<close>, on \<^verbatim>\<open>i32\<close>.\<close>

definition in_view :: "i32 \<Rightarrow> i32 \<Rightarrow> i32 \<Rightarrow> bool" where
  "in_view dx dz r \<longleftrightarrow> sint (dx * dx + dz * dz) \<le> sint (r * r)"

definition needed_chunks :: "ChunkPos \<Rightarrow> i32 \<Rightarrow> ChunkPos set" where
  "needed_chunks player_chunk r =
     set (concat (map (\<lambda>dx. concat (map (\<lambda>dz.
            if in_view dx dz r then [(fst player_chunk + dx, snd player_chunk + dz)] else [])
          (offsets r))) (offsets r)))"

text \<open>
  The part of a \<^verbatim>\<open>Player\<close> that the chunk view needs. \<open>m_chunk_pos\<close> is what
  \<^verbatim>\<open>get_chunk_pos()\<close> returns (the conversion of the floating-point location is not
  modelled); \<open>m_loaded_chunks\<close> is the \<^verbatim>\<open>unordered_set\<close>, a set.
\<close>

record Player =
  m_entity_id :: u32
  m_uuid :: "byte list"
  m_username :: "byte list"
  m_online :: bool
  m_conn_closed :: bool
  m_chunk_pos :: ChunkPos
  m_view_distance :: i32
  m_loaded_chunks :: "ChunkPos set"

definition set_view_distance :: "i32 \<Rightarrow> Player \<Rightarrow> Player" where
  "set_view_distance distance p =
     p\<lparr>m_view_distance := (if sint distance < 2 then 2 else if sint distance > 32 then 32
                            else distance)\<rparr>"

text \<open>
  \<^verbatim>\<open>Player::update_loaded_chunks\<close> as \<^verbatim>\<open>entity.hpp\<close> defines it inside the class:
  erase what is not needed, insert what is missing and ask the chunk manager for each
  inserted coordinate. The second component is the set of coordinates passed to
  \<^verbatim>\<open>g_chunk_manager.load_chunk\<close>.
\<close>

definition update_loaded_chunks :: "Player \<Rightarrow> Player \<times> ChunkPos set" where
  "update_loaded_chunks p =
     (let needed = needed_chunks (m_chunk_pos p) (m_view_distance p);
          kept = {c \<in> m_loaded_chunks p. c \<in> needed};
          to_load = {c \<in> needed. c \<notin> kept}
      in (p\<lparr>m_loaded_chunks := kept \<union> to_load\<rparr>, to_load))"

text \<open>
  The definition of the same method in \<^verbatim>\<open>fixes_and_integration.hpp\<close>: it collects
  \<open>to_unload\<close> and \<open>to_load\<close> first and sends an \<^verbatim>\<open>UnloadChunkPacket\<close> for each
  erased coordinate (second component); the third component is again what is
  inserted and requested.
\<close>

definition update_loaded_chunks_fixes :: "Player \<Rightarrow> Player \<times> ChunkPos set \<times> ChunkPos set" where
  "update_loaded_chunks_fixes p =
     (let needed = needed_chunks (m_chunk_pos p) (m_view_distance p);
          to_unload = {c \<in> m_loaded_chunks p. c \<notin> needed};
          after_unload = m_loaded_chunks p - to_unload;
          to_load = {c \<in> needed. c \<notin> after_unload}
      in (p\<lparr>m_loaded_chunks := after_unload \<union> to_load\<rparr>,
          (if m_conn_closed p then {} else to_unload), to_load))"

text \<open>\<^verbatim>\<open>GameProfile\<close> of \<^verbatim>\<open>types.hpp\<close>: the 16-byte UUID and the name.\<close>

record GameProfile =
  gp_uuid :: "byte list"
  gp_username :: "byte list"

text \<open>
  The constructor \<^verbatim>\<open>Player(connection, profile, entity_id)\<close>: online, view distance 10,
  at the spawn location \<open>(0, 65, 0)\<close>, which lies in chunk \<open>(0, 0)\<close>, nothing loaded.
  Of the connection the session sees whether it is closed.
\<close>

definition Player_new :: "bool \<Rightarrow> GameProfile \<Rightarrow> u32 \<Rightarrow> Player" where
  "Player_new conn_closed profile entity_id =
     \<lparr>m_entity_id = entity_id, m_uuid = gp_uuid profile, m_username = gp_username profile,
      m_online = True, m_conn_closed = conn_closed, m_chunk_pos = (0, 0),
      m_view_distance = 10, m_loaded_chunks = {}\<rparr>"

definition is_online :: "Player \<Rightarrow> bool" where
  "is_online p \<longleftrightarrow> m_online p \<and> \<not> m_conn_closed p"

record PlayerManager =
  m_players_by_uuid :: "byte list \<rightharpoonup> Player"
  m_players_by_name :: "byte list \<rightharpoonup> Player"
  m_players_by_entity_id :: "u32 \<rightharpoonup> Player"
  m_next_entity_id :: u32

definition PlayerManager_new :: PlayerManager where
  "PlayerManager_new =
     \<lparr>m_players_by_uuid = Map.empty, m_players_by_name = Map.empty,
      m_players_by_entity_id = Map.empty, m_next_entity_id = 1\<rparr>"

definition get_player :: "PlayerManager \<Rightarrow> byte list \<Rightarrow> Player option" where
  "get_player pm uuid = m_players_by_uuid pm uuid"

definition get_online_count :: "PlayerManager \<Rightarrow> nat" where
  "get_online_count pm =
     card {uuid \<in> dom (m_players_by_uuid pm). is_online (the (m_players_by_uuid pm uuid))}"

text \<open>
  \<^verbatim>\<open>PlayerManager::create_player\<close> as the class in \<^verbatim>\<open>entity.hpp\<close> defines it (lines
  773 to 783), the definition the build compiles: take the next entity id, build the
  session, store it under its three keys, return it.
\<close>

definition create_player :: "bool \<Rightarrow> GameProfile \<Rightarrow> PlayerManager \<Rightarrow> Player \<times> PlayerManager" where
  "create_player conn_closed profile pm =
     (let entity_id = m_next_entity_id pm;
          pm1 = pm\<lparr>m_next_entity_id := m_next_entity_id pm + 1\<rparr>;
          player = Player_new conn_closed profile entity_id
      in (player,
          pm1\<lparr>m_players_by_uuid := (m_players_by_uuid pm1)(gp_uuid profile \<mapsto> player),
              m_players_by_name := (m_players_by_name pm1)(gp_username profile \<mapsto> player),
              m_players_by_entity_id := (m_players_by_entity_id pm1)(entity_id \<mapsto> player)\<rparr>))"

text \<open>
  The out-of-class definition of the same method in \<^verbatim>\<open>complete_integration.cpp\<close> and
  \<^verbatim>\<open>minecraft_server_complete.cpp\<close> (files the build does not compile): it returns
  the null pointer when the server is full or the UUID is known. \<open>max_players\<close> is
  \<^verbatim>\<open>g_config.get_max_players()\<close>.
\<close>

definition create_player_complete ::
  "u32 \<Rightarrow> bool \<Rightarrow> GameProfile \<Rightarrow> PlayerManager \<Rightarrow> Player option \<times> PlayerManager" where
  "create_player_complete max_players conn_closed profile pm =
     (if get_online_count pm \<ge> unat max_players then (None, pm)
      else if get_player pm (gp_uuid profile) \<noteq> None then (None, pm)
      else let (player, pm') = create_player conn_closed profile pm in (Some player, pm'))"

section \<open>The chunk store (ChunkManager of world/chunk.hpp)\<close>

text \<open>
  The work \<^verbatim>\<open>load_chunk\<close> hands to \<^verbatim>\<open>g_thread_pool.submit\<close>. The lambda of
  \<^verbatim>\<open>chunk.hpp\<close> captures the coordinate and nothing else: it builds a chunk there, calls
  \<^verbatim>\<open>generate_flat_world\<close>, inserts it and clears the pending mark. The file does not
  include the persistence header and the lambda does not mention it.
\<close>

datatype Job = GenerateFlatWorld ChunkPos

record ChunkManager =
  cm_loaded_chunks :: "ChunkPos \<rightharpoonup> Chunk"
  cm_pending_chunks :: "ChunkPos set"
  cm_submitted :: "Job list"

definition ChunkManager_new :: ChunkManager where
  "ChunkManager_new = \<lparr>cm_loaded_chunks = Map.empty, cm_pending_chunks = {}, cm_submitted = []\<rparr>"

text \<open>\<^verbatim>\<open>ChunkManager::load_chunk\<close> of \<^verbatim>\<open>chunk.hpp\<close> (lines 227 to 258).\<close>

definition ChunkManager_load_chunk :: "ChunkPos \<Rightarrow> ChunkManager \<Rightarrow> Chunk option \<times> ChunkManager" where
  "ChunkManager_load_chunk pos cm =
     (case cm_loaded_chunks cm pos of
        Some chunk \<Rightarrow> (Some chunk, cm)
      | None \<Rightarrow>
          if pos \<in> cm_pending_chunks cm then (None, cm)
          else (None, cm\<lparr>cm_pending_chunks := insert pos (cm_pending_chunks cm),
                          cm_submitted := cm_submitted cm @ [GenerateFlatWorld pos]\<rparr>))"

text \<open>
  The out-of-class definition of the same method in \<^verbatim>\<open>minecraft_server_complete.cpp\<close>
  (a file the build does not compile): it asks the persistence first, in the calling
  thread, and only submits the generator when nothing came back.
\<close>

definition ChunkManager_load_chunk_complete ::
  "(nat \<Rightarrow> byte) \<Rightarrow> WorldPersistence \<Rightarrow> ChunkPos \<Rightarrow> ChunkManager \<Rightarrow> Chunk option \<times> ChunkManager" where
  "ChunkManager_load_chunk_complete pool wp pos cm =
     (case cm_loaded_chunks cm pos of
        Some chunk \<Rightarrow> (Some chunk, cm)
      | None \<Rightarrow>
          if pos \<in> cm_pending_chunks cm then (None, cm)
          else (case WorldPersistence_load_chunk pool pos wp of
                  Some saved_chunk \<Rightarrow>
                    (Some saved_chunk, cm\<lparr>cm_loaded_chunks := (cm_loaded_chunks cm)(pos \<mapsto> saved_chunk)\<rparr>)
                | None \<Rightarrow>
                    (None, cm\<lparr>cm_pending_chunks := insert pos (cm_pending_chunks cm),
                               cm_submitted := cm_submitted cm @ [GenerateFlatWorld pos]\<rparr>)))"

section \<open>Packets and the connection (network/packet_types.hpp, network/connection.hpp)\<close>

text \<open>
  \<^verbatim>\<open>enum class ConnectionState : i32\<close>. The enumeration has four named values, but a
  variable of the type holds any \<^verbatim>\<open>i32\<close> a cast puts there, so the phase is an \<^verbatim>\<open>i32\<close>.
\<close>

type_synonym ConnectionState = i32

definition HANDSHAKING :: ConnectionState where "HANDSHAKING = 0"
definition STATUS :: ConnectionState where "STATUS = 1"
definition LOGIN :: ConnectionState where "LOGIN = 2"
definition PLAY :: ConnectionState where "PLAY = 3"

definition MINECRAFT_PROTOCOL_VERSION :: i32 where "MINECRAFT_PROTOCOL_VERSION = 763"

text \<open>
  The packets a connection decodes or sends. A \<^verbatim>\<open>double\<close> travels as its 64 bits. The
  clientbound packets carry what the handlers put in them; the JSON text of the status
  response is not spelled out.
\<close>

datatype Packet =
    HandshakePacket i32 "byte list" u16 i32
  | StatusRequestPacket
  | PingRequestPacket i64
  | LoginStartPacket "byte list" "byte list"
  | KeepAlivePacket i64
  | PlayerPositionPacket u64 u64 u64 bool
  | StatusResponsePacket
  | PingResponsePacket i64
  | LoginSuccessPacket "byte list" "byte list"

datatype PacketKind = Handshake | StatusRequest | PingRequest | LoginStart | PlayerPosition

text \<open>
  \<^verbatim>\<open>g_packet_manager.create_packet(state, SERVERBOUND, id)\<close>: the registry as the
  constructor of \<^verbatim>\<open>PacketManager\<close> fills it. Each packet is registered under the
  phase, direction and id of a default-constructed sample; for \<^verbatim>\<open>KeepAlivePacket\<close> that
  sample is clientbound, so no serverbound keep-alive is registered.
\<close>

definition create_packet :: "ConnectionState \<Rightarrow> i32 \<Rightarrow> PacketKind option" where
  "create_packet state packet_id =
     (if state = HANDSHAKING \<and> packet_id = 0x00 then Some Handshake
      else if state = STATUS \<and> packet_id = 0x00 then Some StatusRequest
      else if state = STATUS \<and> packet_id = 0x01 then Some PingRequest
      else if state = LOGIN \<and> packet_id = 0x00 then Some LoginStart
      else if state = PLAY \<and> packet_id = 0x14 then Some PlayerPosition
      else None)"

text \<open>The \<^verbatim>\<open>read\<close> method of each kind.\<close>

definition packet_read :: "PacketKind \<Rightarrow> Buffer \<Rightarrow> error + Packet" where
  "packet_read kind b =
     (case kind of
        Handshake \<Rightarrow>
          (case read_varint b of Inl e \<Rightarrow> Inl e | Inr (protocol_version, b1) \<Rightarrow>
           case read_string b1 of Inl e \<Rightarrow> Inl e | Inr (server_address, b2) \<Rightarrow>
           case read_be b2 of Inl e \<Rightarrow> Inl e | Inr (server_port, b3) \<Rightarrow>
           case read_varint b3 of Inl e \<Rightarrow> Inl e | Inr (next_state, b4) \<Rightarrow>
             Inr (HandshakePacket protocol_version server_address server_port next_state))
      | StatusRequest \<Rightarrow> Inr StatusRequestPacket
      | PingRequest \<Rightarrow>
          (case read_be b of Inl e \<Rightarrow> Inl e | Inr (payload, b1) \<Rightarrow> Inr (PingRequestPacket payload))
      | LoginStart \<Rightarrow>
          (case read_string b of Inl e \<Rightarrow> Inl e | Inr (username, b1) \<Rightarrow>
             Inr (LoginStartPacket username (fst (read_into (replicate 16 0) b1))))
      | PlayerPosition \<Rightarrow>
          (case read_be b of Inl e \<Rightarrow> Inl e | Inr (x, b1) \<Rightarrow>
           case read_be b1 of Inl e \<Rightarrow> Inl e | Inr (y, b2) \<Rightarrow>
           case read_be b2 of Inl e \<Rightarrow> Inl e | Inr (z, b3) \<Rightarrow>
           case read_byte b3 of Inl e \<Rightarrow> Inl e | Inr (on_ground, b4) \<Rightarrow>
             Inr (PlayerPositionPacket x y z (on_ground \<noteq> 0))))"

text \<open>
  The connection without its socket and its read buffer (the frame loop below carries
  the buffer). \<open>m_write_queue\<close> holds the packets handed to \<^verbatim>\<open>send_packet\<close> in order,
  \<open>m_play_tasks\<close> counts the \<^verbatim>\<open>initialize_play_state\<close> tasks given to the thread pool.
\<close>

record Connection =
  m_state :: ConnectionState
  m_closed :: bool
  m_write_queue :: "Packet list"
  m_profile :: GameProfile
  m_last_keep_alive :: i64
  m_location :: "u64 \<times> u64 \<times> u64"
  m_play_tasks :: nat

definition Connection_new :: Connection where
  "Connection_new =
     \<lparr>m_state = HANDSHAKING, m_closed = False, m_write_queue = [],
      m_profile = \<lparr>gp_uuid = replicate 16 0, gp_username = []\<rparr>,
      m_last_keep_alive = 0, m_location = (0, 0, 0), m_play_tasks = 0\<rparr>"

definition close :: "Connection \<Rightarrow> Connection" where
  "close conn = conn\<lparr>m_closed := True\<rparr>"

definition send_packet :: "Packet \<Rightarrow> Connection \<Rightarrow> Connection" where
  "send_packet p conn =
     (if m_closed conn then conn else conn\<lparr>m_write_queue := m_write_queue conn @ [p]\<rparr>)"

text \<open>
  \<^verbatim>\<open>handle_handshake_packet\<close>, the same in \<^verbatim>\<open>connection.hpp\<close> and in
  \<^verbatim>\<open>fixes_and_integration.hpp\<close> up to logging: the phase becomes the cast of
  \<open>next_state\<close>.
\<close>

definition handle_handshake_packet :: "Packet \<Rightarrow> Connection \<Rightarrow> Connection" where
  "handle_handshake_packet p conn =
     (case p of
        HandshakePacket protocol_version server_address server_port next_state \<Rightarrow>
          if protocol_version \<noteq> MINECRAFT_PROTOCOL_VERSION then close conn
          else conn\<lparr>m_state := next_state\<rparr>
      | _ \<Rightarrow> conn)"

definition handle_status_packet :: "Packet \<Rightarrow> Connection \<Rightarrow> Connection" where
  "handle_status_packet p conn =
     (case p of
        StatusRequestPacket \<Rightarrow> send_packet StatusResponsePacket conn
      | PingRequestPacket payload \<Rightarrow> close (send_packet (PingResponsePacket payload) conn)
      | _ \<Rightarrow> conn)"

text \<open>\<^verbatim>\<open>handle_login_packet\<close> of \<^verbatim>\<open>connection.hpp\<close>.\<close>

definition handle_login_packet :: "Packet \<Rightarrow> Connection \<Rightarrow> Connection" where
  "handle_login_packet p conn =
     (case p of
        LoginStartPacket username player_uuid \<Rightarrow>
          let conn1 = conn\<lparr>m_profile := \<lparr>gp_uuid = player_uuid, gp_username = username\<rparr>\<rparr>;
              conn2 = send_packet (LoginSuccessPacket player_uuid username) conn1
          in conn2\<lparr>m_state := PLAY, m_play_tasks := m_play_tasks conn2 + 1\<rparr>
      | _ \<Rightarrow> conn)"

text \<open>
  \<^verbatim>\<open>utils::is_valid_username\<close>: three to sixteen characters, each a letter, a digit
  or an underscore.
\<close>

definition is_alnum :: "byte \<Rightarrow> bool" where
  "is_alnum c \<longleftrightarrow> (0x30 \<le> c \<and> c \<le> 0x39) \<or> (0x41 \<le> c \<and> c \<le> 0x5A) \<or> (0x61 \<le> c \<and> c \<le> 0x7A)"

definition is_valid_username :: "byte list \<Rightarrow> bool" where
  "is_valid_username username \<longleftrightarrow>
     \<not> (length username < 3 \<or> length username > 16)
     \<and> (\<forall>c \<in> set username. \<not> (\<not> is_alnum c \<and> c \<noteq> 0x5F))"

text \<open>
  \<^verbatim>\<open>handle_login_packet\<close> of \<^verbatim>\<open>fixes_and_integration.hpp\<close>. The configuration
  (\<open>online_mode\<close>), the offline UUID derivation and the player registry are arguments.
\<close>

definition handle_login_packet_fixes ::
  "bool \<Rightarrow> (byte list \<Rightarrow> byte list) \<Rightarrow> PlayerManager \<Rightarrow> Packet \<Rightarrow> Connection \<Rightarrow> Connection" where
  "handle_login_packet_fixes online_mode generate_offline_uuid pm p conn =
     (case p of
        LoginStartPacket username player_uuid \<Rightarrow>
          if \<not> is_valid_username username then close conn
          else let uuid = (if online_mode then player_uuid else generate_offline_uuid username);
                   conn1 = conn\<lparr>m_profile := \<lparr>gp_uuid = uuid, gp_username = username\<rparr>\<rparr>
               in if get_player pm uuid \<noteq> None then close conn1
                  else let conn2 = send_packet (LoginSuccessPacket uuid username) conn1
                       in conn2\<lparr>m_state := PLAY, m_play_tasks := m_play_tasks conn2 + 1\<rparr>
      | _ \<Rightarrow> conn)"

text \<open>\<^verbatim>\<open>handle_play_packet\<close>; \<open>now\<close> is the clock reading in milliseconds.\<close>

definition handle_play_packet :: "i64 \<Rightarrow> Packet \<Rightarrow> Connection \<Rightarrow> Connection" where
  "handle_play_packet now p conn =
     (case p of
        KeepAlivePacket keep_alive_id \<Rightarrow> conn\<lparr>m_last_keep_alive := now\<rparr>
      | PlayerPositionPacket x y z on_ground \<Rightarrow> conn\<lparr>m_location := (x, y, z)\<rparr>
      | _ \<Rightarrow> conn)"

text \<open>\<^verbatim>\<open>handle_packet\<close>: a switch over the four named phases and no default.\<close>

definition handle_packet :: "i64 \<Rightarrow> Packet \<Rightarrow> Connection \<Rightarrow> Connection" where
  "handle_packet now p conn =
     (if m_state conn = HANDSHAKING then handle_handshake_packet p conn
      else if m_state conn = STATUS then handle_status_packet p conn
      else if m_state conn = LOGIN then handle_login_packet p conn
      else if m_state conn = PLAY then handle_play_packet now p conn
      else conn)"

text \<open>
  \<^verbatim>\<open>process_packet\<close>: an exception of a decoder leaves through \<open>Inl\<close>; nothing of the
  connection has changed by then.
\<close>

definition process_packet :: "i64 \<Rightarrow> Buffer \<Rightarrow> Connection \<Rightarrow> error + Connection" where
  "process_packet now packet_buffer conn =
     (case read_varint packet_buffer of
        Inl e \<Rightarrow> Inl e
      | Inr (packet_id, b1) \<Rightarrow>
          (case create_packet (m_state conn) packet_id of
             None \<Rightarrow> Inr conn
           | Some kind \<Rightarrow>
               (case packet_read kind b1 of
                  Inl e \<Rightarrow> Inl e
                | Inr packet \<Rightarrow> Inr (handle_packet now packet conn))))"

text \<open>
  The conversion \<^verbatim>\<open>static_cast<size_t>(packet_length)\<close> on a 64-bit target: a negative
  length becomes a huge one.
\<close>

definition size_t_of :: "i32 \<Rightarrow> nat" where
  "size_t_of v = (if sint v < 0 then nat (2 ^ 64 + sint v) else nat (sint v))"

text \<open>
  The bytes of \<^verbatim>\<open>Buffer packet_data(read_buffer_.data() + initial_pos, packet_length)\<close>:
  \<open>n\<close> bytes of the block from offset \<open>initial_pos\<close> on. Where that runs past the end of
  the block, \<open>m_pool\<close> stands for what lies there.
\<close>

definition memory_at :: "Buffer \<Rightarrow> nat \<Rightarrow> nat \<Rightarrow> byte list" where
  "memory_at b initial_pos n =
     take n (drop initial_pos (m_data b @ map (m_pool b) [length (m_data b)..<initial_pos + n]))"

text \<open>
  The read buffer is changed in place, so the bytes \<^verbatim>\<open>read_varint\<close> has read stay
  consumed when it throws. \<open>read_varint_cursor\<close> is the buffer as \<^verbatim>\<open>read_varint\<close>
  leaves it, whether it returns or throws: the same loop, without the value.
\<close>

function read_varint_cursor_loop :: "nat \<Rightarrow> Buffer \<Rightarrow> Buffer" where
  "read_varint_cursor_loop shift b =
     (if shift \<ge> 32 then b
      else case read_byte b of
             Inl e \<Rightarrow> b
           | Inr (x, b') \<Rightarrow>
               if x AND 0x80 \<noteq> 0 then read_varint_cursor_loop (shift + 7) b' else b')"
  by pat_completeness auto

termination read_varint_cursor_loop
  by (relation "measure (\<lambda>(s, b). 32 - s)") auto

declare read_varint_cursor_loop.simps [simp del]

definition read_varint_cursor :: "Buffer \<Rightarrow> Buffer" where
  "read_varint_cursor b = read_varint_cursor_loop 0 b"

text \<open>
  One round of the \<^verbatim>\<open>while\<close> loop of \<^verbatim>\<open>handle_read\<close>, entered with
  \<open>readable > 0\<close>. \<open>initial_pos\<close> is \<^verbatim>\<open>read_buffer_.size()\<close>, as the source has it.
  A round that throws gives the read buffer as the exception finds it: behind the bytes
  of the length prefix that were read. The decoder works on a buffer of its own, so an
  exception of the decoder leaves the read buffer behind the length prefix.
\<close>

datatype Round =
    Thrown Buffer Connection
  | Break Buffer Connection
  | Consumed "byte list" Buffer Connection

definition handle_read_round :: "i64 \<Rightarrow> Buffer \<Rightarrow> Connection \<Rightarrow> Round" where
  "handle_read_round now read_buffer conn =
     (let initial_pos = m_size read_buffer
      in case read_varint read_buffer of
           Inl e \<Rightarrow> Thrown (read_varint_cursor read_buffer) (close conn)
         | Inr (packet_length, rb) \<Rightarrow>
             if readable rb < size_t_of packet_length then Break rb conn
             else let frame = memory_at rb initial_pos (size_t_of packet_length)
                  in case process_packet now (Buffer_view (m_pool rb) frame) conn of
                       Inl e \<Rightarrow> Thrown rb (close conn)
                     | Inr conn' \<Rightarrow> Consumed frame rb conn')"

text \<open>
  The loop of \<^verbatim>\<open>handle_read\<close>. It ends because a round that goes on has read a
  length prefix, hence at least one byte. The result is the buffer, the connection and
  whether \<^verbatim>\<open>start_read\<close> is reached (it is not after an exception).
\<close>

lemma read_varint_loop_advances:
  "read_varint_loop result shift b = Inr (v, b') \<Longrightarrow>
   m_size b' = m_size b \<and> m_read_pos b < m_read_pos b' \<and> m_read_pos b' \<le> m_size b"
proof (induction result shift b rule: read_varint_loop.induct)
  case (1 result shift b)
  from "1.prems" have sh: "\<not> shift \<ge> 32"
    by (subst (asm) read_varint_loop.simps) (auto split: if_splits)
  from "1.prems" sh obtain x where rb: "read_byte b = Inr (x, b\<lparr>m_read_pos := m_read_pos b + 1\<rparr>)"
    and lt: "m_read_pos b < m_size b"
    by (subst (asm) read_varint_loop.simps) (auto simp add: read_byte_def split: if_splits)
  show ?case
  proof (cases "x AND 0x80 \<noteq> 0")
    case True
    let ?r = "result OR push_bit shift (ucast (x AND 0x7F))"
    from "1.prems" sh rb True
    have "read_varint_loop ?r (shift + 7) (b\<lparr>m_read_pos := m_read_pos b + 1\<rparr>) = Inr (v, b')"
      by (subst (asm) read_varint_loop.simps) (simp add: Let_def)
    from "1.IH"[OF sh rb refl refl True this] show ?thesis by simp
  next
    case False
    from "1.prems" sh rb False have "b' = b\<lparr>m_read_pos := m_read_pos b + 1\<rparr>"
      by (subst (asm) read_varint_loop.simps) (simp add: Let_def)
    then show ?thesis using lt by simp
  qed
qed

lemma handle_read_round_consumed:
  assumes "handle_read_round now read_buffer conn = Consumed frame rb conn'"
  shows "readable rb < readable read_buffer"
proof -
  from assms obtain len where "read_varint read_buffer = Inr (len, rb)"
    by (auto simp add: handle_read_round_def Let_def split: sum.splits if_splits prod.splits)
  then have "m_size rb = m_size read_buffer \<and> m_read_pos read_buffer < m_read_pos rb
             \<and> m_read_pos rb \<le> m_size read_buffer"
    unfolding read_varint_def by (rule read_varint_loop_advances)
  then have "m_size rb - m_read_pos rb < m_size read_buffer - m_read_pos read_buffer"
    by linarith
  then show ?thesis by (simp add: readable_def)
qed

function handle_read_loop :: "i64 \<Rightarrow> Buffer \<Rightarrow> Connection \<Rightarrow> Buffer \<times> Connection \<times> bool" where
  "handle_read_loop now read_buffer conn =
     (if readable read_buffer > 0
      then case handle_read_round now read_buffer conn of
             Thrown rb conn' \<Rightarrow> (rb, conn', False)
           | Break rb conn' \<Rightarrow> (rb, conn', True)
           | Consumed frame rb conn' \<Rightarrow> handle_read_loop now rb conn'
      else (read_buffer, conn, True))"
  by pat_completeness auto

termination handle_read_loop
  by (relation "measure (\<lambda>(now, rb, conn). readable rb)")
     (auto dest: handle_read_round_consumed)

declare handle_read_loop.simps [simp del]

text \<open>\<^verbatim>\<open>handle_read\<close>: the received bytes are appended, then the loop runs.\<close>

definition handle_read :: "i64 \<Rightarrow> byte list \<Rightarrow> Buffer \<Rightarrow> Connection \<Rightarrow> Buffer \<times> Connection \<times> bool" where
  "handle_read now received read_buffer conn =
     handle_read_loop now (write_bytes received read_buffer) conn"

section \<open>Notions used to state the properties\<close>

text \<open>
  A buffer is in order when its size lies inside its block and the write cursor stands
  at the size; every buffer the constructors and \<open>write_bytes\<close> produce is.
  \<open>content\<close> is what has been written, \<open>unread\<close> what the read cursor has not passed.
\<close>

definition buffer_ok :: "Buffer \<Rightarrow> bool" where
  "buffer_ok b \<longleftrightarrow>
     m_size b \<le> length (m_data b) \<and> m_write_pos b = m_size b \<and> m_read_pos b \<le> m_size b"

definition content :: "Buffer \<Rightarrow> byte list" where
  "content b = take (m_size b) (m_data b)"

definition unread :: "Buffer \<Rightarrow> byte list" where
  "unread b = drop (m_read_pos b) (content b)"

text \<open>The bytes that \<open>write_varint_loop\<close> emits for a value, as a list.\<close>

function varint_bytes :: "u32 \<Rightarrow> byte list" where
  "varint_bytes uvalue =
     (if uvalue \<ge> 0x80 then ucast (uvalue OR 0x80) # varint_bytes (drop_bit 7 uvalue)
      else [ucast uvalue])"
  by pat_completeness auto

termination varint_bytes
  by (relation "measure unat") (auto simp add: word_le_nat_alt drop_bit_eq_div unat_div)

declare varint_bytes.simps [simp del]

text \<open>
  \<open>clz\<close> is the count of leading zero bits of a 32-bit value, as the length formula of
  the specification uses it: bits are inspected from bit 31 downwards until one is set.
  The code has no such function.
\<close>

fun clz_from :: "nat \<Rightarrow> u32 \<Rightarrow> nat" where
  "clz_from 0 w = 0"
| "clz_from (Suc n) w = (if bit w n then 0 else Suc (clz_from n w))"

definition clz :: "u32 \<Rightarrow> nat" where
  "clz w = clz_from 32 w"

text \<open>
  A region file on disk that stores chunk \<open>(0, 0)\<close>: the 8 KiB header, whose first
  entry \<open>00 00 02 01\<close> points at sector 2 and gives one sector, followed by one zeroed
  sector (a chunk of no sections). \<open>stored_region\<close> is that file as opened by the
  persistence, with the tables its header holds.
\<close>

definition stored_file :: "byte list" where
  "stored_file = [0x00, 0x00, 0x02, 0x01] @ replicate 12284 0"

definition stored_region :: RegionFile where
  "stored_region =
     \<lparr>rf_file = stored_file, rf_is_open = True,
      rf_locations = 0x201 # replicate 1023 0, rf_timestamps = replicate 1024 0, rf_dirty = False\<rparr>"

text \<open>
  The handshake of boundary scenario 2 of the specification: frame length 16, packet id
  0, protocol 763, host "localhost", port 25565, next state 1.
\<close>

definition handshake_bytes :: "byte list" where
  "handshake_bytes =
     [0x10, 0x00, 0xF3, 0x05, 0x09, 0x6C, 0x6F, 0x63, 0x61, 0x6C, 0x68, 0x6F, 0x73, 0x74,
      0x63, 0xDD, 0x01]"

text \<open>
  The read cursor moved on by \<open>k\<close> bytes, and the serialisation of a chunk as a list of
  bytes: what \<open>serialize_chunk\<close> appends to a buffer.
\<close>

definition adv :: "nat \<Rightarrow> Buffer \<Rightarrow> Buffer" where
  "adv k b = b\<lparr>m_read_pos := m_read_pos b + k\<rparr>"

definition be_bytes :: "'a::len word \<Rightarrow> byte list" where
  "be_bytes v = map (\<lambda>i. ucast (drop_bit (i * 8) v)) (rev [0..<LENGTH('a) div 8])"

definition section_bytes :: "ChunkSection option \<Rightarrow> byte list" where
  "section_bytes section =
     (case section of
        None \<Rightarrow> [0]
      | Some s \<Rightarrow>
          1 # be_bytes (block_count s)
            @ concat (map (\<lambda>i. be_bytes (ChunkSection_get_block s (block_x i) (block_y i) (block_z i)))
                [0..<BLOCKS_PER_SECTION])
            @ block_light s @ sky_light s)"

definition chunk_bytes :: "Chunk \<Rightarrow> byte list" where
  "chunk_bytes c =
     be_bytes (word_of_nat (length (m_sections c)) :: i32) @ concat (map section_bytes (m_sections c))"

definition section_ok :: "ChunkSection option \<Rightarrow> bool" where
  "section_ok section \<longleftrightarrow>
     (case section of
        None \<Rightarrow> True
      | Some s \<Rightarrow> length (block_light s) = 2048 \<and> length (sky_light s) = 2048)"

text \<open>
  The failing input of the round trip: a chunk at \<open>(0, 0)\<close> whose only block is one
  stone at \<open>(0, -64, 0)\<close>, and a region file that consists of an empty header.
\<close>

definition stone_chunk :: Chunk where
  "stone_chunk = Chunk_set_block 0 (- 64) 0 STONE (Chunk_new (0, 0))"

definition empty_region :: RegionFile where
  "empty_region =
     \<lparr>rf_file = replicate 8192 0, rf_is_open = True, rf_locations = replicate 1024 0,
      rf_timestamps = replicate 1024 0, rf_dirty = False\<rparr>"

text \<open>
  The region file after the stone chunk has been saved into the empty region at time
  \<open>now\<close>: the rewritten header, the serialised chunk in sectors 2 to 5, zero padding.
\<close>

definition saved_region :: "u32 \<Rightarrow> RegionFile" where
  "saved_region now =
     \<lparr>rf_file = (concat (map be32 ((replicate 1024 0)[0 := 0x204]))
                  @ concat (map be32 ((replicate 1024 0)[0 := now])))
                 @ chunk_bytes stone_chunk @ replicate 4066 0,
      rf_is_open = True, rf_locations = (replicate 1024 0)[0 := 0x204],
      rf_timestamps = (replicate 1024 0)[0 := now], rf_dirty = True\<rparr>"

section \<open>Properties of the VarInt codec\<close>

lemma write_bytes_ok:
  assumes "buffer_ok b"
  shows "buffer_ok (write_bytes src b)"
    and "content (write_bytes src b) = content b @ src"
    and "m_read_pos (write_bytes src b) = m_read_pos b"
    and "m_pool (write_bytes src b) = m_pool b"
  using assms
  by (auto simp: buffer_ok_def content_def write_bytes_def ensure_capacity_def m_capacity_def
      Let_def max_def)

lemma write_varint_loop_ok:
  "buffer_ok b \<Longrightarrow>
     buffer_ok (write_varint_loop u b) \<and>
     content (write_varint_loop u b) = content b @ varint_bytes u \<and>
     m_read_pos (write_varint_loop u b) = m_read_pos b \<and>
     m_pool (write_varint_loop u b) = m_pool b"
proof (induction u b rule: write_varint_loop.induct)
  case (1 uvalue b)
  show ?case
  proof (cases "uvalue \<ge> 0x80")
    case True
    let ?b1 = "write_byte (ucast (uvalue OR 0x80)) b"
    have ok1: "buffer_ok ?b1" using 1(2) by (simp add: write_byte_def write_bytes_ok)
    from 1(1)[OF True ok1] show ?thesis
      using True 1(2)
      by (simp add: write_varint_loop.simps[of uvalue b] varint_bytes.simps[of uvalue]
            write_byte_def write_bytes_ok)
  next
    case False
    then show ?thesis using 1(2)
      by (simp add: write_varint_loop.simps[of uvalue b] varint_bytes.simps[of uvalue]
            write_byte_def write_bytes_ok)
  qed
qed

lemma m7F: "(0x7F :: 'a::len word) = mask 7" by (simp add: mask_eq_exp_minus_1)

lemma bit_0x80: "bit (0x80 :: 'a::len word) n \<longleftrightarrow> n = 7 \<and> 7 < LENGTH('a)"
proof -
  have "(0x80 :: 'a word) = 2 ^ 7" by simp
  then have "bit (0x80 :: 'a word) n \<longleftrightarrow> bit (2 ^ 7 :: 'a word) n" by (simp only:)
  then show ?thesis by (auto simp only: bit_exp_iff possible_bit_word)
qed

lemma bit_128_int: "bit (128 :: int) n \<longleftrightarrow> n = 7"
proof -
  have "(128 :: int) = 2 ^ 7" by simp
  then have "bit (128 :: int) n \<longleftrightarrow> bit (2 ^ 7 :: int) n" by (simp only:)
  then show ?thesis by (auto simp only: bit_exp_iff possible_bit_int)
qed

lemma lt_0x80_bits: "(u::u32) < 0x80 \<Longrightarrow> u AND mask 7 = u"
proof -
  assume "u < 0x80"
  then have "u < 2 ^ 7" by simp
  then show ?thesis by (rule less_mask_eq)
qed

lemma cont_byte_flag: "(ucast ((u::u32) OR 0x80) :: byte) AND 0x80 \<noteq> 0"
proof -
  have "bit ((ucast (u OR 0x80) :: byte) AND 0x80) 7"
    by (simp add: bit_simps bit_0x80 bit_128_int)
  then show ?thesis by auto
qed

lemma cont_byte_low: "(ucast ((ucast ((u::u32) OR 0x80) :: byte) AND 0x7F) :: u32) = u AND 0x7F"
  unfolding m7F by (rule bit_eqI) (auto simp add: bit_simps bit_0x80 bit_128_int)

lemma last_byte_flag: "(u::u32) < 0x80 \<Longrightarrow> (ucast u :: byte) AND 0x80 = 0"
proof -
  assume "u < 0x80"
  then have "u AND mask 7 = u" by (rule lt_0x80_bits)
  then have "\<not> bit u 7" by (metis bit_and_iff bit_mask_iff less_irrefl)
  then show ?thesis by (intro bit_eqI) (auto simp add: bit_simps bit_0x80 bit_128_int)
qed

lemma last_byte_low: "(u::u32) < 0x80 \<Longrightarrow> (ucast ((ucast u :: byte) AND 0x7F) :: u32) = u"
proof -
  assume "u < 0x80"
  then have t: "u AND mask 7 = u" by (rule lt_0x80_bits)
  have "(ucast ((ucast u :: byte) AND 0x7F) :: u32) = u AND mask 7"
    unfolding m7F by (rule bit_eqI) (auto simp add: bit_simps)
  then show ?thesis using t by simp
qed

lemma split7: "((u::u32) AND 0x7F) OR push_bit 7 (drop_bit 7 u) = u"
  unfolding m7F
proof (rule bit_eqI)
  fix n
  show "bit (u AND mask 7 OR push_bit 7 (drop_bit 7 u)) n = bit u n"
    by (cases "n < 7") (auto simp add: bit_simps dest: bit_imp_le_length)
qed

lemma acc_step: "acc OR push_bit s ((u::u32) AND 0x7F) OR push_bit (s + 7) (drop_bit 7 u) = acc OR push_bit s u"
proof -
  have "push_bit s ((u AND 0x7F) OR push_bit 7 (drop_bit 7 u)) = push_bit s u"
    by (simp only: split7)
  then show ?thesis
    by (simp add: push_bit_or push_bit_push_bit ac_simps del: push_bit_and)
qed

lemma read_byte_unread:
  assumes "unread b = x # xs"
  shows "read_byte b = Inr (x, b\<lparr>m_read_pos := m_read_pos b + 1\<rparr>)"
    and "unread (b\<lparr>m_read_pos := m_read_pos b + 1\<rparr>) = xs"
proof -
  let ?c = "take (m_size b) (m_data b)"
  from assms have d: "drop (m_read_pos b) ?c = x # xs" by (simp add: unread_def content_def)
  then have lt: "m_read_pos b < length ?c" by (cases "m_read_pos b < length ?c") auto
  then have lt2: "m_read_pos b < m_size b" by simp
  have "?c ! m_read_pos b = x" using d lt by (metis nth_via_drop)
  then have x: "m_data b ! m_read_pos b = x" using lt2 by simp
  show "read_byte b = Inr (x, b\<lparr>m_read_pos := m_read_pos b + 1\<rparr>)"
    using lt2 x by (simp add: read_byte_def)
  have "drop (Suc (m_read_pos b)) ?c = xs" using d by (metis drop_Suc tl_drop list.sel(3))
  then show "unread (b\<lparr>m_read_pos := m_read_pos b + 1\<rparr>) = xs"
    by (simp add: unread_def content_def)
qed


lemma varint_bytes_length_pos: "length (varint_bytes u) \<ge> 1"
  by (subst varint_bytes.simps) simp

lemma read_varint_loop_unread:
  "unread b = varint_bytes u @ rest \<Longrightarrow> shift + 7 * length (varint_bytes u) \<le> 35 \<Longrightarrow>
   read_varint_loop acc shift b =
     Inr (acc OR push_bit shift u, b\<lparr>m_read_pos := m_read_pos b + length (varint_bytes u)\<rparr>)"
proof (induction u arbitrary: acc shift b rule: varint_bytes.induct)
  case (1 uvalue)
  show ?case
  proof (cases "uvalue \<ge> 0x80")
    case True
    let ?x = "ucast (uvalue OR 0x80) :: byte"
    let ?b' = "b\<lparr>m_read_pos := m_read_pos b + 1\<rparr>"
    have vb: "varint_bytes uvalue = ?x # varint_bytes (drop_bit 7 uvalue)"
      using True by (subst varint_bytes.simps) simp
    from 1(2) vb have u: "unread b = ?x # (varint_bytes (drop_bit 7 uvalue) @ rest)" by simp
    have rb: "read_byte b = Inr (?x, ?b')" and ur: "unread ?b' = varint_bytes (drop_bit 7 uvalue) @ rest"
      using read_byte_unread[OF u] by simp_all
    have len: "length (varint_bytes uvalue) = Suc (length (varint_bytes (drop_bit 7 uvalue)))"
      using vb by simp
    have sh: "shift < 32" using 1(3) len varint_bytes_length_pos[of "drop_bit 7 uvalue"] by simp
    have sh': "(shift + 7) + 7 * length (varint_bytes (drop_bit 7 uvalue)) \<le> 35"
      using 1(3) len by simp
    have "read_varint_loop acc shift b =
            read_varint_loop (acc OR push_bit shift (uvalue AND 0x7F)) (shift + 7) ?b'"
      using sh rb by (subst read_varint_loop.simps) (simp add: cont_byte_flag cont_byte_low)
    also have "\<dots> = Inr ((acc OR push_bit shift (uvalue AND 0x7F)) OR push_bit (shift + 7) (drop_bit 7 uvalue),
                          ?b'\<lparr>m_read_pos := m_read_pos ?b' + length (varint_bytes (drop_bit 7 uvalue))\<rparr>)"
      by (rule 1(1)[OF True ur sh'])
    finally show ?thesis using len acc_step[of acc shift uvalue] by (simp add: or.assoc)
  next
    case False
    then have lt: "uvalue < 0x80" by simp
    have vb: "varint_bytes uvalue = [ucast uvalue]"
      using False by (subst varint_bytes.simps) simp
    from 1(2) vb have u: "unread b = ucast uvalue # rest" by simp
    have sh: "shift < 32" using 1(3) vb by simp
    show ?thesis
      using sh read_byte_unread(1)[OF u] vb
      by (subst read_varint_loop.simps) (simp add: last_byte_flag[OF lt] last_byte_low[OF lt])
  qed
qed

lemma varint_bytes_length_bound:
  "unat u < 2 ^ (7 * k) \<Longrightarrow> k \<ge> 1 \<Longrightarrow> length (varint_bytes u) \<le> k"
proof (induction u arbitrary: k rule: varint_bytes.induct)
  case (1 uvalue)
  show ?case
  proof (cases "uvalue \<ge> 0x80")
    case True
    then have ge: "unat uvalue \<ge> 128" by (simp add: word_le_nat_alt)
    have k2: "k \<ge> 2"
    proof (rule ccontr)
      assume "\<not> k \<ge> 2"
      then have "k = 1" using 1(3) by simp
      then show False using 1(2) ge by simp
    qed
    then obtain k' where k': "k = Suc k'" "k' \<ge> 1" by (cases k) auto
    have "unat (drop_bit 7 uvalue) = unat uvalue div 2 ^ 7"
      by (simp add: drop_bit_eq_div unat_div)
    moreover have "unat uvalue < 2 ^ 7 * 2 ^ (7 * k')" using 1(2) k' by (simp add: power_add)
    ultimately have "unat (drop_bit 7 uvalue) < 2 ^ (7 * k')"
      by (simp add: less_mult_imp_div_less mult.commute)
    from 1(1)[OF True this k'(2)] show ?thesis
      using True k' by (subst varint_bytes.simps) simp
  next
    case False
    then show ?thesis using 1(3) by (subst varint_bytes.simps) simp
  qed
qed

lemma varint_bytes_length_le_5: "length (varint_bytes u) \<le> 5"
proof -
  have "unat u < 2 ^ 32" using unsigned_less[of u] by simp
  then have "unat u < 2 ^ (7 * 5)" by simp
  then show ?thesis by (rule varint_bytes_length_bound) simp
qed

lemma varint_bytes_length_conv:
  "length (varint_bytes u) \<le> k \<Longrightarrow> unat u < 2 ^ (7 * k)"
proof (induction u arbitrary: k rule: varint_bytes.induct)
  case (1 uvalue)
  show ?case
  proof (cases "uvalue \<ge> 0x80")
    case True
    have len: "length (varint_bytes uvalue) = Suc (length (varint_bytes (drop_bit 7 uvalue)))"
      using True by (subst varint_bytes.simps) simp
    then obtain k' where k': "k = Suc k'" "length (varint_bytes (drop_bit 7 uvalue)) \<le> k'"
      using 1(2) by (cases k) auto
    have "unat (drop_bit 7 uvalue) < 2 ^ (7 * k')" by (rule 1(1)[OF True k'(2)])
    moreover have "unat (drop_bit 7 uvalue) = unat uvalue div 2 ^ 7"
      by (simp add: drop_bit_eq_div unat_div)
    ultimately have "unat uvalue div 2 ^ 7 < 2 ^ (7 * k')" by simp
    then have "unat uvalue < 2 ^ (7 * k') * 2 ^ 7"
      by (simp add: div_less_iff_less_mult del: power_Suc)
    then show ?thesis using k' by (simp add: power_add mult.commute)
  next
    case False
    then have "unat uvalue < 128" by (simp add: word_le_nat_alt not_le)
    moreover have "k \<ge> 1" using 1(2) varint_bytes_length_pos[of uvalue] by simp
    then have "(2::nat) ^ (7 * 1) \<le> 2 ^ (7 * k)" by (intro power_increasing) simp_all
    ultimately show ?thesis by simp
  qed
qed

lemma clz_from_le: "clz_from n w \<le> n"
  by (induction n) simp_all

lemma clz_from_char:
  "m \<le> n \<Longrightarrow> n - clz_from n w \<le> m \<longleftrightarrow> (\<forall>i. m \<le> i \<and> i < n \<longrightarrow> \<not> bit w i)"
proof (induction n)
  case 0
  then show ?case by simp
next
  case (Suc n)
  show ?case
  proof (cases "m = Suc n")
    case True
    then show ?thesis using clz_from_le[of "Suc n" w] by auto
  next
    case False
    then have mn: "m \<le> n" using Suc.prems by simp
    have split: "(\<forall>i. m \<le> i \<and> i < Suc n \<longrightarrow> \<not> bit w i) \<longleftrightarrow>
                 (\<forall>i. m \<le> i \<and> i < n \<longrightarrow> \<not> bit w i) \<and> \<not> bit w n"
      using mn by (auto simp: less_Suc_eq)
    show ?thesis
    proof (cases "bit w n")
      case True
      then show ?thesis using mn split by simp
    next
      case False
      have "Suc n - clz_from (Suc n) w = n - clz_from n w" using False by simp
      then show ?thesis using Suc.IH[OF mn] split False by simp
    qed
  qed
qed

lemma word32_less_2p_bits:
  fixes w :: u32
  assumes "m < 32"
  shows "w < 2 ^ m \<longleftrightarrow> (\<forall>i. m \<le> i \<and> i < 32 \<longrightarrow> \<not> bit w i)"
proof -
  have "w < 2 ^ m \<longleftrightarrow> w AND mask m = w"
    using assms mask_eq_iff_w2p[of m w] by (simp add: word_size)
  also have "\<dots> \<longleftrightarrow> (\<forall>i. bit w i \<longrightarrow> i < m)"
  proof
    assume eq: "w AND mask m = w"
    show "\<forall>i. bit w i \<longrightarrow> i < m"
    proof (intro allI impI)
      fix i assume "bit w i"
      then have "bit (w AND mask m) i" using eq by simp
      then show "i < m" by (simp add: bit_simps)
    qed
  next
    assume "\<forall>i. bit w i \<longrightarrow> i < m"
    then show "w AND mask m = w" by (intro bit_eqI) (auto simp add: bit_simps)
  qed
  also have "\<dots> \<longleftrightarrow> (\<forall>i. m \<le> i \<and> i < 32 \<longrightarrow> \<not> bit w i)"
    using bit_imp_le_length[of w] by (auto simp: not_less)
  finally show ?thesis .
qed

lemma clz_char:
  fixes w :: u32
  assumes "m < 32"
  shows "32 - clz w \<le> m \<longleftrightarrow> w < 2 ^ m"
  using assms clz_from_char[of m 32 w] word32_less_2p_bits[of m w] by (simp add: clz_def)

lemma or_1_less_2p:
  fixes u :: u32
  assumes "1 \<le> m" "m < 32"
  shows "u OR 1 < 2 ^ m \<longleftrightarrow> u < 2 ^ m"
  using assms by (auto simp add: word32_less_2p_bits bit_simps)

lemma bitlen_or_1_pos: "32 - clz ((u::u32) OR 1) \<ge> 1"
proof (rule ccontr)
  assume "\<not> 1 \<le> 32 - clz (u OR 1)"
  then have "32 - clz (u OR 1) \<le> 0" by simp
  then have "u OR 1 < 2 ^ 0" using clz_char[of 0 "u OR 1"] by simp
  then have "u OR 1 = 0" by (simp add: word_less_1)
  then have "bit (u OR 1) 0 = bit (0::u32) 0" by simp
  then show False by (simp add: bit_simps)
qed

lemma unat_less_2p_iff:
  fixes u :: u32
  assumes "m < 32"
  shows "unat u < 2 ^ m \<longleftrightarrow> u < 2 ^ m"
proof -
  have "u < 2 ^ m \<longleftrightarrow> uint u < 2 ^ m"
    using assms word_2p_lem[of m u] by (simp add: word_size)
  also have "\<dots> \<longleftrightarrow> int (unat u) < 2 ^ m" by simp
  also have "\<dots> \<longleftrightarrow> unat u < 2 ^ m" by (simp only: of_nat_less_numeral_power_cancel_iff)
  finally show ?thesis by simp
qed

lemma varint_length_formula:
  "length (varint_bytes u) = (32 - clz (u OR 1) + 6) div 7"
proof -
  define L where "L = length (varint_bytes u)"
  define B where "B = 32 - clz (u OR 1)"
  have L1: "1 \<le> L" and L5: "L \<le> 5"
    unfolding L_def by (rule varint_bytes_length_pos, rule varint_bytes_length_le_5)
  have B1: "1 \<le> B" unfolding B_def by (rule bitlen_or_1_pos)
  have B32: "B \<le> 32" unfolding B_def by simp
  have Bchar: "B \<le> m \<longleftrightarrow> unat u < 2 ^ m" if "1 \<le> m" "m < 32" for m
    unfolding B_def using that clz_char[of m "u OR 1"] or_1_less_2p[of m u] unat_less_2p_iff[of m u]
    by simp
  have up: "B \<le> 7 * L"
  proof (cases "7 * L < 32")
    case True
    have "unat u < 2 ^ (7 * L)" unfolding L_def by (rule varint_bytes_length_conv) simp
    then show ?thesis using Bchar[of "7 * L"] True L1 by simp
  next
    case False
    then show ?thesis using B32 by simp
  qed
  have lo: "7 * (L - 1) < B"
  proof (cases "L = 1")
    case True
    then show ?thesis using B1 by simp
  next
    case False
    then have L2: "2 \<le> L" using L1 by simp
    show ?thesis
    proof (rule ccontr)
      assume "\<not> 7 * (L - 1) < B"
      then have "B \<le> 7 * (L - 1)" by simp
      moreover have "1 \<le> 7 * (L - 1)" "7 * (L - 1) < 32" using L2 L5 by simp_all
      ultimately have "unat u < 2 ^ (7 * (L - 1))" using Bchar by blast
      then have "length (varint_bytes u) \<le> L - 1"
        using L2 by (intro varint_bytes_length_bound) simp_all
      then show False using L2 unfolding L_def by simp
    qed
  qed
  have "7 * L \<le> B + 6" using lo L1 by simp
  moreover have "B + 6 < 7 * Suc L" using up by simp
  ultimately have "(B + 6) div 7 = L" by (rule div_nat_eqI)
  then show ?thesis unfolding L_def B_def by simp
qed

lemma ceiling_div7: "\<lceil>real n / 7\<rceil> = int ((n + 6) div 7)"
proof -
  have "real n / 7 \<le> real ((n + 6) div 7)"
  proof -
    have "n \<le> 7 * ((n + 6) div 7)" by presburger
    then have "real n \<le> real (7 * ((n + 6) div 7))" by (simp only: of_nat_le_iff)
    then show ?thesis by simp
  qed
  moreover have "real ((n + 6) div 7) - 1 < real n / 7"
  proof -
    have "7 * ((n + 6) div 7) < n + 7" by presburger
    then have "real (7 * ((n + 6) div 7)) < real (n + 7)" by (simp only: of_nat_less_iff)
    then show ?thesis by simp
  qed
  ultimately show ?thesis by (intro ceiling_unique) simp_all
qed

text \<open>
  C3. For every 32-bit \<open>v\<close>, written to a buffer in order whose earlier content has
  been read: \<open>read_varint\<close> gives back \<open>v\<close> and leaves the read cursor at the end; the
  number of bytes \<open>write_varint\<close> produced is the ceiling of \<open>(32 - clz (v OR 1)) / 7\<close>,
  and it is at most 5.
\<close>

theorem varint_roundtrip:
  assumes "buffer_ok b" and "m_read_pos b = m_size b"
  shows "read_varint (write_varint v b) =
           Inr (v, (write_varint v b)\<lparr>m_read_pos := m_size (write_varint v b)\<rparr>)
         \<and> int (m_size (write_varint v b) - m_size b) = \<lceil>real (32 - clz (v OR 1)) / 7\<rceil>
         \<and> m_size (write_varint v b) - m_size b \<le> 5"
proof -
  let ?w = "write_varint v b"
  have w: "buffer_ok ?w" "content ?w = content b @ varint_bytes v" "m_read_pos ?w = m_read_pos b"
    using write_varint_loop_ok[OF assms(1), of v] by (simp_all add: write_varint_def)
  have lenb: "length (content b) = m_size b" and lenw: "length (content ?w) = m_size ?w"
    using assms(1) w(1) by (simp_all add: content_def buffer_ok_def)
  have sz: "m_size ?w = m_size b + length (varint_bytes v)"
    using w(2) lenb lenw by (metis length_append)
  have un: "unread ?w = varint_bytes v @ []"
    using w(2,3) assms(2) lenb by (simp add: unread_def)
  have "read_varint_loop 0 0 ?w =
          Inr (0 OR push_bit 0 v, ?w\<lparr>m_read_pos := m_read_pos ?w + length (varint_bytes v)\<rparr>)"
    using varint_bytes_length_le_5[of v] by (intro read_varint_loop_unread[OF un]) simp
  then have rt: "read_varint ?w = Inr (v, ?w\<lparr>m_read_pos := m_size ?w\<rparr>)"
    using w(3) assms(2) sz by (simp add: read_varint_def)
  have n: "m_size ?w - m_size b = length (varint_bytes v)" using sz by simp
  show ?thesis
    using rt n varint_length_formula[of v] varint_bytes_length_le_5[of v]
    by (simp add: ceiling_div7)
qed

theorem varint_roundtrip_witness:
  "buffer_ok (Buffer_empty (\<lambda>_. 0)) \<and> m_read_pos (Buffer_empty (\<lambda>_. 0)) = m_size (Buffer_empty (\<lambda>_. 0))
   \<and> (\<exists>b'. read_varint (write_varint 300 (Buffer_empty (\<lambda>_. 0))) = Inr (300, b'))
   \<and> int (m_size (write_varint 300 (Buffer_empty (\<lambda>_. 0))) - m_size (Buffer_empty (\<lambda>_. 0)))
         = \<lceil>real (32 - clz (300 OR 1)) / 7\<rceil>"
proof -
  have ok: "buffer_ok (Buffer_empty (\<lambda>_. 0))"
    and rp: "m_read_pos (Buffer_empty (\<lambda>_. 0)) = m_size (Buffer_empty (\<lambda>_. 0))"
    by (simp_all add: buffer_ok_def Buffer_empty_def)
  show ?thesis using ok rp varint_roundtrip[OF ok rp, of 300] by blast
qed

text \<open>Boundary scenario 1 of the specification: 300 is written as the bytes AC 02.\<close>

lemma write_varint_300:
  "content (write_varint 300 (Buffer_empty pool)) = [0xAC, 0x02]"
  by (simp add: write_varint_def write_varint_loop.simps write_byte_def write_bytes_def
      ensure_capacity_def m_capacity_def Buffer_empty_def content_def)

section \<open>Packed block positions\<close>

lemma m26: "(0x3FFFFFF :: 'a::len word) = mask 26" by (simp add: mask_eq_exp_minus_1)
lemma m12: "(0xFFF :: 'a::len word) = mask 12" by (simp add: mask_eq_exp_minus_1)

lemma enc_x: "(ucast (drop_bit 38 (BlockChangePacket_encode_pos p)) :: i32) = take_bit 26 (pos_x p)"
  unfolding BlockChangePacket_encode_pos_def m26 m12
  by (rule bit_eqI) (auto simp add: bit_simps)

lemma enc_z: "(ucast (drop_bit 12 (BlockChangePacket_encode_pos p) AND 0x3FFFFFF) :: i32) = take_bit 26 (pos_z p)"
  unfolding BlockChangePacket_encode_pos_def m26 m12
  by (rule bit_eqI) (auto simp add: bit_simps)

lemma enc_y: "(ucast (BlockChangePacket_encode_pos p AND 0xFFF) :: i32) = take_bit 12 (pos_y p)"
  unfolding BlockChangePacket_encode_pos_def m26 m12
  by (rule bit_eqI) (auto simp add: bit_simps)



lemma sint_take_bit_small:
  fixes w :: i32
  assumes "k < 32"
  shows "sint (take_bit k w) = take_bit k (sint w)"
proof -
  have u: "uint (take_bit k w) = take_bit k (sint w)"
    using assms by (simp add: unsigned_take_bit_eq sint_uint take_bit_signed_take_bit)
  have "take_bit k (sint w) < 2 ^ k" by simp
  also have "(2::int) ^ k \<le> 2 ^ 31" using assms by (intro power_increasing) simp_all
  finally have lt: "take_bit k (sint w) < 2 ^ 31" .
  have ge: "- (2 ^ 31) \<le> take_bit k (sint w)"
    by (rule order_trans[of _ 0]) simp_all
  have "sint (take_bit k w) = signed_take_bit 31 (uint (take_bit k w))"
    by (simp add: sint_uint)
  also have "\<dots> = take_bit k (sint w)"
    unfolding u using ge lt by (simp add: signed_take_bit_int_eq_self)
  finally show ?thesis .
qed

lemma word_take_bit_of_sint:
  fixes w :: i32
  assumes "k < 32"
  shows "take_bit k w = word_of_int (take_bit k (sint w))"
proof -
  have "uint (take_bit k w) = take_bit k (sint w)"
    using assms by (simp add: unsigned_take_bit_eq sint_uint take_bit_signed_take_bit)
  then show ?thesis by (metis word_of_int_uint)
qed

lemma sign_extend_26:
  fixes w :: i32
  assumes "- 33554432 < sint w" "sint w < 33554432"
  shows "(if sint (take_bit 26 w) \<ge> 0x2000000 then take_bit 26 w - 0x4000000 else take_bit 26 w) = w"
proof (cases "0 \<le> sint w")
  case True
  then have tb: "take_bit 26 (sint w) = sint w"
    using assms by (simp add: take_bit_int_eq_self)
  have "sint (take_bit 26 w) = sint w" using tb by (simp add: sint_take_bit_small)
  moreover have "take_bit 26 w = w"
    using tb word_take_bit_of_sint[of 26 w] by simp
  ultimately show ?thesis using assms by simp
next
  case False
  then have tb: "take_bit 26 (sint w) = sint w + 67108864"
  proof -
    have "(sint w + 67108864) mod 67108864 = sint w + 67108864"
      using assms False by (intro mod_pos_pos_trivial) simp_all
    then have "sint w mod 67108864 = sint w + 67108864" by simp
    then show ?thesis by (simp add: take_bit_eq_mod)
  qed
  have "sint (take_bit 26 w) = sint w + 67108864" using tb by (simp add: sint_take_bit_small)
  moreover have "take_bit 26 w = word_of_int (sint w + 67108864)"
    using tb word_take_bit_of_sint[of 26 w] by simp
  ultimately show ?thesis using assms by simp
qed

lemma sign_extend_12:
  fixes w :: i32
  assumes "- 2048 < sint w" "sint w < 2048"
  shows "(if sint (take_bit 12 w) \<ge> 0x800 then take_bit 12 w - 0x1000 else take_bit 12 w) = w"
proof (cases "0 \<le> sint w")
  case True
  then have tb: "take_bit 12 (sint w) = sint w"
    using assms by (simp add: take_bit_int_eq_self)
  have "sint (take_bit 12 w) = sint w" using tb by (simp add: sint_take_bit_small)
  moreover have "take_bit 12 w = w"
    using tb word_take_bit_of_sint[of 12 w] by simp
  ultimately show ?thesis using assms by simp
next
  case False
  then have tb: "take_bit 12 (sint w) = sint w + 4096"
  proof -
    have "(sint w + 4096) mod 4096 = sint w + 4096"
      using assms False by (intro mod_pos_pos_trivial) simp_all
    then have "sint w mod 4096 = sint w + 4096" by simp
    then show ?thesis by (simp add: take_bit_eq_mod)
  qed
  have "sint (take_bit 12 w) = sint w + 4096" using tb by (simp add: sint_take_bit_small)
  moreover have "take_bit 12 w = word_of_int (sint w + 4096)"
    using tb word_take_bit_of_sint[of 12 w] by simp
  ultimately show ?thesis using assms by simp
qed


text \<open>
  C9. For every block position with \<open>|x| < 2^25\<close>, \<open>|z| < 2^25\<close> and \<open>|y| < 2^11\<close>,
  decoding the packed 64-bit value of the encoder gives the position back, negative
  coordinates included.
\<close>

theorem position_roundtrip:
  assumes "\<bar>sint (pos_x p)\<bar> < 2 ^ 25" and "\<bar>sint (pos_z p)\<bar> < 2 ^ 25"
    and "\<bar>sint (pos_y p)\<bar> < 2 ^ 11"
  shows "BlockChangePacket_decode_pos (BlockChangePacket_encode_pos p) = p"
proof -
  have x: "- 33554432 < sint (pos_x p)" "sint (pos_x p) < 33554432"
    and z: "- 33554432 < sint (pos_z p)" "sint (pos_z p) < 33554432"
    and y: "- 2048 < sint (pos_y p)" "sint (pos_y p) < 2048"
    using assms by simp_all
  show ?thesis
    unfolding BlockChangePacket_decode_pos_def Let_def enc_x enc_y enc_z
    using sign_extend_26[OF x] sign_extend_26[OF z] sign_extend_12[OF y]
    by simp
qed

theorem position_roundtrip_witness:
  "\<bar>sint (- 5 :: i32)\<bar> < 2 ^ 25 \<and> \<bar>sint (33554431 :: i32)\<bar> < 2 ^ 25 \<and> \<bar>sint (- 64 :: i32)\<bar> < 2 ^ 11
   \<and> BlockChangePacket_decode_pos
         (BlockChangePacket_encode_pos \<lparr>pos_x = - 5, pos_y = - 64, pos_z = 33554431\<rparr>)
       = \<lparr>pos_x = - 5, pos_y = - 64, pos_z = 33554431\<rparr>"
  using position_roundtrip[of "\<lparr>pos_x = - 5, pos_y = - 64, pos_z = 33554431\<rparr>"]
  by simp

section \<open>Strings\<close>

lemma read_varint_one_byte:
  "m_read_pos b < m_size b \<Longrightarrow> m_data b ! m_read_pos b AND 0x80 = 0 \<Longrightarrow>
   read_varint b = Inr (ucast (m_data b ! m_read_pos b AND 0x7F), b\<lparr>m_read_pos := m_read_pos b + 1\<rparr>)"
  by (simp add: read_varint_def read_varint_loop.simps[of 0 0 b] read_byte_def)

text \<open>
  Once the length prefix has been decoded, the only error \<open>read_string\<close> knows is the
  length check; a payload that is too short is not one.
\<close>

lemma read_string_after_length:
  assumes "read_varint b = Inr (len, b1)"
  shows "read_string b =
           (if sint len < 0 \<or> sint len > 32767 then Inl InvalidStringLength
            else Inr (fst (read_bytes (nat (sint len)) b1)
                        @ replicate (nat (sint len) - length (fst (read_bytes (nat (sint len)) b1))) 0,
                      snd (read_bytes (nat (sint len)) b1)))"
  using assms by (simp add: read_string_def Let_def split_beta)

text \<open>
  C8 (the code differs from the claim). The buffer holds the bytes 05 61 62: a length
  prefix of five and only two bytes behind it. \<open>read_string\<close> does not fail: it returns
  a five-byte string, the two bytes followed by three NULs.
\<close>

theorem read_string_short_payload:
  "\<forall>pool. read_string (Buffer_view pool [0x05, 0x61, 0x62])
     = Inr ([0x61, 0x62, 0, 0, 0], (Buffer_view pool [0x05, 0x61, 0x62])\<lparr>m_read_pos := 3\<rparr>)"
  by (simp add: read_string_def read_varint_one_byte Buffer_view_def read_bytes_def Let_def
      numeral_3_eq_3)

section \<open>Sky light of an untouched chunk\<close>

lemma SECTIONS_PER_CHUNK_24: "SECTIONS_PER_CHUNK = 24"
  by (simp add: SECTIONS_PER_CHUNK_def idiv_def WORLD_MAX_Y_def WORLD_MIN_Y_def)

text \<open>
  C10 (the code differs from the claim). \<open>y = -65\<close> lies below the world, yet the
  division in \<open>get_section_index\<close> rounds \<open>-1 / 16\<close> to section 0, the range check
  passes, and the untouched chunk answers 15.
\<close>

theorem sky_light_below_world:
  "sint (- 65 :: i32) < sint WORLD_MIN_Y \<and> get_section_index (- 65) = 0
   \<and> (\<forall>pos. Chunk_get_sky_light (Chunk_new pos) 0 (- 65) 0 = 15)"
  by (simp add: Chunk_get_sky_light_def Chunk_new_def get_section_index_def idiv_def
      WORLD_MIN_Y_def WORLD_MAX_Y_def SECTIONS_PER_CHUNK_def section_idx_ok_def
      signed_divide_int_def)

section \<open>The chunk view of a player\<close>

lemma sint_small:
  fixes k :: int
  assumes "- 2147483648 \<le> k" "k < 2147483648"
  shows "sint (word_of_int k :: i32) = k"
  using assms by (simp add: sint_sbintrunc' signed_take_bit_int_eq_self)

lemma sq_sum_word:
  fixes i j :: int
  assumes "\<bar>i\<bar> \<le> 32" "\<bar>j\<bar> \<le> 32"
  shows "sint ((word_of_int i :: i32) * word_of_int i + word_of_int j * word_of_int j) = i * i + j * j"
proof -
  have "\<bar>i\<bar> * \<bar>i\<bar> \<le> 32 * 32" "\<bar>j\<bar> * \<bar>j\<bar> \<le> 32 * 32"
    using assms by (intro mult_mono; simp)+
  then have "i * i \<le> 32 * 32" "j * j \<le> 32 * 32" by simp_all
  moreover have "0 \<le> i * i + j * j" by (rule sum_squares_ge_zero)
  ultimately have b: "- 2147483648 \<le> i * i + j * j" "i * i + j * j < 2147483648" by linarith+
  have "(word_of_int i :: i32) * word_of_int i + word_of_int j * word_of_int j = word_of_int (i * i + j * j)"
    by simp
  then show ?thesis using sint_small[OF b] by simp
qed


lemma in_view_int:
  fixes i j :: int and r :: i32
  assumes "\<bar>i\<bar> \<le> 32" "\<bar>j\<bar> \<le> 32" "0 \<le> sint r" "sint r \<le> 32"
  shows "in_view (word_of_int i) (word_of_int j) r \<longleftrightarrow> i * i + j * j \<le> sint r * sint r"
proof -
  have r: "r = word_of_int (sint r)" by simp
  have "sint (r * r) = sint ((word_of_int (sint r) :: i32) * word_of_int (sint r) + word_of_int 0 * word_of_int 0)"
    by simp
  also have "\<dots> = sint r * sint r + 0 * 0"
    using assms(3,4) by (subst sq_sum_word) simp_all
  finally have rr: "sint (r * r) = sint r * sint r" by simp
  show ?thesis unfolding in_view_def rr using sq_sum_word[OF assms(1,2)] by simp
qed

lemma sq_le_imp_abs_le:
  fixes i j r :: int
  assumes "i * i + j * j \<le> r * r" "0 \<le> r"
  shows "\<bar>i\<bar> \<le> r"
proof (rule ccontr)
  assume "\<not> \<bar>i\<bar> \<le> r"
  then have "r < \<bar>i\<bar>" by simp
  then have "r * r < \<bar>i\<bar> * \<bar>i\<bar>" using assms(2) by (intro mult_strict_mono) simp_all
  then have "r * r < i * i" by simp
  moreover have "0 \<le> j * j" by simp
  ultimately show False using assms(1) by linarith
qed

lemma set_offsets: "set (offsets r) = word_of_int ` {- sint r .. sint r}"
  by (simp add: offsets_def)

lemma needed_chunks_char:
  assumes "0 \<le> sint r" "sint r \<le> 32"
  shows "needed_chunks (cx, cz) r =
           {(cx + word_of_int dx, cz + word_of_int dz) | dx dz. dx * dx + dz * dz \<le> sint r * sint r}"
    (is "?L = ?R")
proof (intro set_eqI iffI)
  fix c assume "c \<in> ?L"
  then obtain dx dz where d: "dx \<in> set (offsets r)" "dz \<in> set (offsets r)" "in_view dx dz r"
      and c: "c = (cx + dx, cz + dz)"
    by (auto simp add: needed_chunks_def split: if_splits)
  from d(1,2) obtain i j where ij: "dx = word_of_int i" "dz = word_of_int j"
      "- sint r \<le> i" "i \<le> sint r" "- sint r \<le> j" "j \<le> sint r"
    by (auto simp add: set_offsets)
  have "\<bar>i\<bar> \<le> 32" "\<bar>j\<bar> \<le> 32" using ij assms by simp_all
  then have "i * i + j * j \<le> sint r * sint r"
    using d(3) ij(1,2) assms in_view_int by blast
  then show "c \<in> ?R" using c ij(1,2) by blast
next
  fix c assume "c \<in> ?R"
  then obtain i j where ij: "c = (cx + word_of_int i, cz + word_of_int j)"
      "i * i + j * j \<le> sint r * sint r" by blast
  have "j * j + i * i \<le> sint r * sint r" using ij(2) by (simp add: add.commute)
  then have abs: "\<bar>i\<bar> \<le> sint r" "\<bar>j\<bar> \<le> sint r"
    using sq_le_imp_abs_le[OF ij(2) assms(1)] sq_le_imp_abs_le[OF _ assms(1), of j i] by simp_all
  then have b: "\<bar>i\<bar> \<le> 32" "\<bar>j\<bar> \<le> 32" using assms(2) by simp_all
  have iv: "in_view (word_of_int i) (word_of_int j) r"
    using in_view_int[OF b assms] ij(2) by simp
  have "i \<in> {- sint r .. sint r}" "j \<in> {- sint r .. sint r}" using abs by auto
  then have "word_of_int i \<in> set (offsets r)" "word_of_int j \<in> set (offsets r)"
    unfolding set_offsets by blast+
  then show "c \<in> ?L"
    using iv ij(1) by (auto simp add: needed_chunks_def intro!: bexI[of _ "word_of_int i"] bexI[of _ "word_of_int j"])
qed

text \<open>
  C7. For a player at chunk \<open>(cx, cz)\<close> with view distance \<open>r\<close> (between 0 and 32; the
  class keeps it in \<open>[2, 32]\<close>), after \<open>update_loaded_chunks\<close> the loaded set is exactly
  \<open>{(cx + dx, cz + dz) | dx\<^sup>2 + dz\<^sup>2 \<le> r\<^sup>2}\<close>, whatever it was before. Both definitions of
  the method in the repository are covered.
\<close>

theorem update_loaded_chunks_disc:
  assumes "0 \<le> sint (m_view_distance p)" and "sint (m_view_distance p) \<le> 32"
  shows "m_loaded_chunks (fst (update_loaded_chunks p)) =
           {(fst (m_chunk_pos p) + word_of_int dx, snd (m_chunk_pos p) + word_of_int dz) | dx dz.
              dx * dx + dz * dz \<le> sint (m_view_distance p) * sint (m_view_distance p)}
         \<and> m_loaded_chunks (fst (update_loaded_chunks_fixes p)) =
           {(fst (m_chunk_pos p) + word_of_int dx, snd (m_chunk_pos p) + word_of_int dz) | dx dz.
              dx * dx + dz * dz \<le> sint (m_view_distance p) * sint (m_view_distance p)}"
proof -
  have n: "needed_chunks (m_chunk_pos p) (m_view_distance p) =
           {(fst (m_chunk_pos p) + word_of_int dx, snd (m_chunk_pos p) + word_of_int dz) | dx dz.
              dx * dx + dz * dz \<le> sint (m_view_distance p) * sint (m_view_distance p)}"
    using needed_chunks_char[OF assms, of "fst (m_chunk_pos p)" "snd (m_chunk_pos p)"] by simp
  have "m_loaded_chunks (fst (update_loaded_chunks p)) = needed_chunks (m_chunk_pos p) (m_view_distance p)"
    by (auto simp add: update_loaded_chunks_def Let_def)
  moreover have "m_loaded_chunks (fst (update_loaded_chunks_fixes p)) = needed_chunks (m_chunk_pos p) (m_view_distance p)"
    by (auto simp add: update_loaded_chunks_fixes_def Let_def)
  ultimately show ?thesis using n by simp
qed

theorem update_loaded_chunks_disc_witness:
  "0 \<le> sint (2 :: i32) \<and> sint (2 :: i32) \<le> 32
   \<and> m_loaded_chunks (fst (update_loaded_chunks
         \<lparr>m_entity_id = 1, m_uuid = [], m_username = [], m_online = True, m_conn_closed = False,
          m_chunk_pos = (0, 0), m_view_distance = 2, m_loaded_chunks = {(5, 5)}\<rparr>))
       = {(word_of_int dx, word_of_int dz) | dx dz. dx * dx + dz * dz \<le> 4}"
  using update_loaded_chunks_disc[of
         "\<lparr>m_entity_id = 1, m_uuid = [], m_username = [], m_online = True, m_conn_closed = False,
          m_chunk_pos = (0, 0), m_view_distance = 2, m_loaded_chunks = {(5, 5)}\<rparr>"]
  by simp

section \<open>Creating a player session\<close>

lemma create_player_never_fails:
  "m_players_by_uuid (snd (create_player cc profile pm)) (gp_uuid profile) = Some (fst (create_player cc profile pm))
   \<and> m_players_by_name (snd (create_player cc profile pm)) (gp_username profile) = Some (fst (create_player cc profile pm))
   \<and> m_players_by_entity_id (snd (create_player cc profile pm)) (m_next_entity_id pm) = Some (fst (create_player cc profile pm))
   \<and> m_entity_id (fst (create_player cc profile pm)) = m_next_entity_id pm"
  by (simp add: create_player_def Let_def Player_new_def)

lemma online_count_one:
  "get_online_count (snd (create_player False profile PlayerManager_new)) = 1"
  by (simp add: get_online_count_def create_player_def Let_def Player_new_def PlayerManager_new_def
      is_online_def)

text \<open>
  C5 (the code differs from the claim). One player is online and registered under its
  UUID. A second \<open>create_player\<close> for the same profile neither fails as a duplicate nor,
  with a limit of one player, as a full server: it returns a new session with entity id
  2 and overwrites the three map entries. The definition of the method in
  \<^verbatim>\<open>minecraft_server_complete.cpp\<close> refuses the same call.
\<close>

theorem create_player_unchecked:
  "\<forall>uuid name.
     (let profile = \<lparr>gp_uuid = uuid, gp_username = name\<rparr>;
          (p1, pm1) = create_player False profile PlayerManager_new;
          (p2, pm2) = create_player False profile pm1
      in get_online_count pm1 = 1 \<and> get_player pm1 uuid = Some p1
         \<and> create_player_complete 1 False profile pm1 = (None, pm1)
         \<and> m_entity_id p2 = 2 \<and> get_player pm2 uuid = Some p2
         \<and> m_players_by_name pm2 name = Some p2 \<and> m_players_by_entity_id pm2 2 = Some p2)"
  by (simp add: get_online_count_def create_player_def Let_def Player_new_def PlayerManager_new_def
      is_online_def get_player_def create_player_complete_def)

section \<open>Loading a chunk into the store\<close>

text \<open>
  For a coordinate that is neither loaded nor pending, \<open>load_chunk\<close> marks it pending
  and submits the generator job, always.
\<close>

lemma load_chunk_always_generates:
  assumes "cm_loaded_chunks cm pos = None" and "pos \<notin> cm_pending_chunks cm"
  shows "ChunkManager_load_chunk pos cm =
           (None, cm\<lparr>cm_pending_chunks := insert pos (cm_pending_chunks cm),
                      cm_submitted := cm_submitted cm @ [GenerateFlatWorld pos]\<rparr>)"
  using assms by (simp add: ChunkManager_load_chunk_def)

lemma read_be_i32_zero:
  "m_read_pos b + 4 \<le> m_size b \<Longrightarrow> \<forall>i<4. m_data b ! (m_read_pos b + i) = 0 \<Longrightarrow>
   (read_be b :: error + (i32 \<times> Buffer)) = Inr (0, b\<lparr>m_read_pos := m_read_pos b + 4\<rparr>)"
proof -
  assume a: "m_read_pos b + 4 \<le> m_size b" "\<forall>i<4. m_data b ! (m_read_pos b + i) = 0"
  have z: "m_data b ! m_read_pos b = 0" "m_data b ! Suc (m_read_pos b) = 0"
    "m_data b ! Suc (Suc (m_read_pos b)) = 0" "m_data b ! Suc (Suc (Suc (m_read_pos b))) = 0"
    using a(2)[rule_format, of 0] a(2)[rule_format, of 1] a(2)[rule_format, of 2] a(2)[rule_format, of 3]
    by (simp_all add: numeral_2_eq_2 numeral_3_eq_3)
  have four: "(4::nat) = Suc (Suc (Suc (Suc 0)))" by simp
  have "LENGTH(32) div 8 = Suc (Suc (Suc (Suc 0)))" by simp
  then show ?thesis using a(1) z
    by (simp add: read_be_def read_byte_def del: len_of_numeral_defs)
qed

text \<open>
  The example region file: opened by the persistence, its header gives the tables of
  \<open>stored_region\<close>; written back, the tables give the header the file has.
\<close>

lemma host_zero: "be32toh (host_u32 (replicate 4 0)) = 0"
  by (simp add: be32toh_def host_u32_def numeral_eq_Suc)

lemma entry_first: "be32toh (host_u32 (take 4 (drop 0 stored_file))) = 0x201"
  by (simp add: stored_file_def be32toh_def host_u32_def)


lemma drop_append_ge: "length xs \<le> k \<Longrightarrow> drop k (xs @ ys) = drop (k - length xs) ys"
  by simp

lemma drop_stored:
  assumes "4 \<le> k"
  shows "drop k stored_file = replicate (12288 - k) 0"
  using assms drop_append_ge[of "[0x00, 0x00, 0x02, 0x01 :: byte]" k "replicate 12284 0"]
  by (simp add: stored_file_def)

lemma entry_zero:
  assumes "4 \<le> k" "k + 4 \<le> 12288"
  shows "be32toh (host_u32 (take 4 (drop k stored_file))) = 0"
proof -
  have "take 4 (drop k stored_file) = replicate 4 0"
    using assms by (simp add: drop_stored min_def)
  then show ?thesis by (simp only: host_zero)
qed

lemma stored_locations: "read_table stored_file 0 = 0x201 # replicate 1023 0"
proof (rule nth_equalityI)
  show "length (read_table stored_file 0) = length (0x201 # replicate 1023 (0::u32))"
    by (simp add: read_table_def)
next
  fix i assume "i < length (read_table stored_file 0)"
  then have i: "i < 1024" by (simp add: read_table_def)
  show "read_table stored_file 0 ! i = (0x201 # replicate 1023 0) ! i"
  proof (cases i)
    case 0
    then show ?thesis using entry_first by (simp add: read_table_def del: upt_rec_numeral)
  next
    case (Suc j)
    then have "be32toh (host_u32 (take 4 (drop (4 * i) stored_file))) = 0"
      using i by (intro entry_zero) simp_all
    then show ?thesis using i Suc by (simp add: read_table_def del: upt_rec_numeral)
  qed
qed

lemma stored_timestamps: "read_table stored_file 4096 = replicate 1024 0"
proof (rule nth_equalityI)
  show "length (read_table stored_file 4096) = length (replicate 1024 (0::u32))"
    by (simp add: read_table_def)
next
  fix i assume "i < length (read_table stored_file 4096)"
  then have i: "i < 1024" by (simp add: read_table_def)
  have "be32toh (host_u32 (take 4 (drop (4096 + 4 * i) stored_file))) = 0"
    using i by (intro entry_zero) simp_all
  then show "read_table stored_file 4096 ! i = replicate 1024 0 ! i"
    using i by (simp add: read_table_def del: upt_rec_numeral)
qed

lemma length_stored_file: "length stored_file = 12288"
  by (simp add: stored_file_def)

lemma stored_region_opened: "open_region_file stored_file = Some stored_region"
  by (simp add: open_region_file_def load_region_header_def RegionFile_new_def
      length_stored_file stored_locations stored_timestamps stored_region_def)

lemma replicate_4_plus: "replicate (4 + m) x = x # x # x # x # replicate m x"
  by (simp add: numeral_eq_Suc)

lemma concat_zero_entries: "concat (replicate n [0, 0, 0, 0 :: byte]) = replicate (4 * n) 0"
  by (induction n) (simp_all add: replicate_4_plus)

lemma stored_region_header: "save_region_header stored_region = stored_region"
  by (simp add: save_region_header_def stored_region_def stored_file_def concat_zero_entries
      be32_def Let_def replicate_add[symmetric])

text \<open>The region file that consists of a zeroed header opens as \<open>empty_region\<close>.\<close>

lemma empty_table:
  assumes "start \<le> 4096"
  shows "read_table (replicate 8192 0) start = replicate 1024 0"
proof (rule nth_equalityI)
  show "length (read_table (replicate 8192 0) start) = length (replicate 1024 (0::u32))"
    by (simp add: read_table_def)
next
  fix i assume "i < length (read_table (replicate 8192 0) start)"
  then have i: "i < 1024" by (simp add: read_table_def)
  have "take 4 (drop (start + 4 * i) (replicate 8192 (0::byte))) = replicate 4 0"
    using i assms by (simp add: min_def)
  then have "be32toh (host_u32 (take 4 (drop (start + 4 * i) (replicate 8192 0)))) = 0"
    by (simp only: host_zero)
  then show "read_table (replicate 8192 0) start ! i = replicate 1024 0 ! i"
    using i by (simp add: read_table_def del: upt_rec_numeral)
qed

lemma empty_region_opened: "open_region_file (replicate 8192 0) = Some empty_region"
  by (simp add: open_region_file_def load_region_header_def RegionFile_new_def empty_table
      empty_region_def)

lemma region_coords_origin: "get_region_coords (0, 0) = (0, 0)"
  by (simp add: get_region_coords_def)

lemma chunk_index_origin: "chunk_index_of (0, 0) = 0"
  by (simp add: chunk_index_of_def get_local_chunk_coords_def)

lemma deserialize_zero_sector:
  "deserialize_chunk (0, 0) (Buffer_view pool (replicate 4096 0))
     = Inr ((Chunk_new (0, 0))\<lparr>m_loaded := True\<rparr>)"
  by (simp add: deserialize_chunk_def read_be_i32_zero Buffer_view_def Chunk_new_def)

lemma stored_sector: "take 4096 (drop 8192 stored_file) = replicate 4096 0"
  by (simp add: drop_stored)

lemma stored_chunk_is_loaded:
  "WorldPersistence_load_chunk pool (0, 0) (\<lambda>_. stored_region)
     = Some ((Chunk_new (0, 0))\<lparr>m_loaded := True\<rparr>)"
  by (simp add: WorldPersistence_load_chunk_def stored_region_def region_coords_origin
      chunk_index_origin stored_sector length_stored_file deserialize_zero_sector Let_def)

text \<open>
  C6 (the code differs from the claim). The region file on disk holds the table entry
  \<open>00 00 02 01\<close> for chunk \<open>(0, 0)\<close>; opened by the persistence it gives
  \<open>stored_region\<close>, so chunk \<open>(0, 0)\<close> is stored in the region file
  and the persistence can load it; nothing is loaded or pending in the store. The
  \<open>load_chunk\<close> of \<^verbatim>\<open>chunk.hpp\<close> returns "not ready" and submits the generator job: it
  has no access to the persistence, so the stored chunk is generated anew instead of
  being loaded. The definition of the same method in
  \<^verbatim>\<open>minecraft_server_complete.cpp\<close> returns the stored chunk and submits nothing.
\<close>

theorem load_chunk_ignores_stored_chunk:
  "\<forall>pool.
     open_region_file stored_file = Some stored_region
     \<and> WorldPersistence_load_chunk pool (0, 0) (\<lambda>_. stored_region)
       = Some ((Chunk_new (0, 0))\<lparr>m_loaded := True\<rparr>)
     \<and> ChunkManager_load_chunk (0, 0) ChunkManager_new
       = (None, \<lparr>cm_loaded_chunks = Map.empty, cm_pending_chunks = {(0, 0)},
                 cm_submitted = [GenerateFlatWorld (0, 0)]\<rparr>)
     \<and> fst (ChunkManager_load_chunk_complete pool (\<lambda>_. stored_region) (0, 0) ChunkManager_new)
       = Some ((Chunk_new (0, 0))\<lparr>m_loaded := True\<rparr>)
     \<and> cm_submitted (snd (ChunkManager_load_chunk_complete pool (\<lambda>_. stored_region) (0, 0)
          ChunkManager_new)) = []"
  by (simp add: ChunkManager_load_chunk_complete_def ChunkManager_load_chunk_def
      stored_region_opened stored_chunk_is_loaded ChunkManager_new_def)

section \<open>The frame loop\<close>

text \<open>Where \<^verbatim>\<open>read_varint\<close> returns, \<open>read_varint_cursor\<close> is the buffer it returns.\<close>

lemma read_varint_cursor_loop_returns:
  "read_varint_loop result shift b = Inr (v, b') \<Longrightarrow> read_varint_cursor_loop shift b = b'"
proof (induction result shift b rule: read_varint_loop.induct)
  case (1 result shift b)
  from "1.prems" have sh: "\<not> shift \<ge> 32"
    by (subst (asm) read_varint_loop.simps) (auto split: if_splits)
  from "1.prems" sh obtain x b1 where rb: "read_byte b = Inr (x, b1)"
    by (subst (asm) read_varint_loop.simps) (auto split: sum.splits)
  show ?case
  proof (cases "x AND 0x80 \<noteq> 0")
    case True
    let ?r = "result OR push_bit shift (ucast (x AND 0x7F))"
    from "1.prems" sh rb True have "read_varint_loop ?r (shift + 7) b1 = Inr (v, b')"
      by (subst (asm) read_varint_loop.simps) (simp add: Let_def)
    from "1.IH"[OF sh rb refl refl True this] have "read_varint_cursor_loop (shift + 7) b1 = b'" .
    then show ?thesis using sh rb True
      by (subst read_varint_cursor_loop.simps) simp
  next
    case False
    from "1.prems" sh rb False have "b' = b1"
      by (subst (asm) read_varint_loop.simps) (simp add: Let_def)
    then show ?thesis using sh rb False
      by (subst read_varint_cursor_loop.simps) simp
  qed
qed

lemma read_varint_cursor_returns:
  "read_varint b = Inr (v, b') \<Longrightarrow> read_varint_cursor b = b'"
  unfolding read_varint_def read_varint_cursor_def by (rule read_varint_cursor_loop_returns)

text \<open>
  Where \<^verbatim>\<open>read_varint\<close> throws for want of bytes, every byte that was left has been
  read.
\<close>

lemma read_varint_cursor_loop_underflow:
  "read_varint_loop result shift b = Inl BufferUnderflow \<Longrightarrow> m_read_pos b \<le> m_size b \<Longrightarrow>
   read_varint_cursor_loop shift b = b\<lparr>m_read_pos := m_size b\<rparr>"
proof (induction result shift b rule: read_varint_loop.induct)
  case (1 result shift b)
  from "1.prems"(1) have sh: "\<not> shift \<ge> 32"
    by (subst (asm) read_varint_loop.simps) (auto split: if_splits)
  show ?case
  proof (cases "m_read_pos b \<ge> m_size b")
    case True
    then have "m_read_pos b = m_size b" using "1.prems"(2) by simp
    then show ?thesis using sh
      by (subst read_varint_cursor_loop.simps) (simp add: read_byte_def)
  next
    case False
    let ?x = "m_data b ! m_read_pos b" and ?b1 = "b\<lparr>m_read_pos := m_read_pos b + 1\<rparr>"
    have rb: "read_byte b = Inr (?x, ?b1)" using False by (simp add: read_byte_def)
    from "1.prems"(1) sh rb have c: "?x AND 0x80 \<noteq> 0"
      by (subst (asm) read_varint_loop.simps) (auto simp add: Let_def split: if_splits)
    let ?r = "result OR push_bit shift (ucast (?x AND 0x7F))"
    from "1.prems"(1) sh rb c have "read_varint_loop ?r (shift + 7) ?b1 = Inl BufferUnderflow"
      by (subst (asm) read_varint_loop.simps) (simp add: Let_def)
    moreover have "m_read_pos ?b1 \<le> m_size ?b1" using False by simp
    ultimately have "read_varint_cursor_loop (shift + 7) ?b1 = ?b1\<lparr>m_read_pos := m_size ?b1\<rparr>"
      using "1.IH"[OF sh rb refl refl c] by blast
    then show ?thesis using sh rb c
      by (subst read_varint_cursor_loop.simps) simp
  qed
qed

lemma write_bytes_fresh:
  assumes "length src \<le> cap"
  shows "write_bytes src (Buffer_cap pool cap) =
           \<lparr>m_data = src @ map pool [length src..<cap], m_size = length src, m_read_pos = 0,
            m_write_pos = length src, m_pool = pool\<rparr>"
  using assms
  by (simp add: write_bytes_def Buffer_cap_def ensure_capacity_def m_capacity_def Let_def
      drop_map del: upt_rec_numeral)

lemma hs_len: "length handshake_bytes = 17" by (simp add: handshake_bytes_def)

lemma received_handshake:
  "write_bytes handshake_bytes (Buffer_cap pool 8192) =
     \<lparr>m_data = handshake_bytes @ map pool [17..<8192], m_size = 17, m_read_pos = 0,
      m_write_pos = 17, m_pool = pool\<rparr>"
  using write_bytes_fresh[of handshake_bytes 8192 pool] by (simp add: hs_len del: upt_rec_numeral)

lemma hs_prefix:
  "read_varint \<lparr>m_data = handshake_bytes @ rest, m_size = 17, m_read_pos = 0,
      m_write_pos = 17, m_pool = pool\<rparr>
   = Inr (16, \<lparr>m_data = handshake_bytes @ rest, m_size = 17, m_read_pos = 1,
      m_write_pos = 17, m_pool = pool\<rparr>)"
  by (subst read_varint_one_byte) (simp_all add: handshake_bytes_def)


text \<open>Whatever the block holds, the frame handed over is the memory behind the data.\<close>

lemma hs_frame_memory:
  "memory_at \<lparr>m_data = handshake_bytes @ map pool [17..<8192], m_size = 17, m_read_pos = rp,
      m_write_pos = 17, m_pool = pool\<rparr> 17 16 = map pool [17..<33]"
  by (simp add: memory_at_def hs_len take_map del: upt_rec_numeral)

lemma size_t_16: "size_t_of 16 = 16" by (simp add: size_t_of_def)
lemma size_t_0: "size_t_of 0 = 0" by (simp add: size_t_of_def)

lemma read_be_u16_zero:
  "m_read_pos b + 2 \<le> m_size b \<Longrightarrow> m_data b ! m_read_pos b = 0 \<Longrightarrow>
   m_data b ! Suc (m_read_pos b) = 0 \<Longrightarrow>
   (read_be b :: error + (u16 \<times> Buffer)) = Inr (0, b\<lparr>m_read_pos := m_read_pos b + 2\<rparr>)"
proof -
  assume a: "m_read_pos b + 2 \<le> m_size b" "m_data b ! m_read_pos b = 0" "m_data b ! Suc (m_read_pos b) = 0"
  have "LENGTH(16) div 8 = Suc (Suc 0)" by simp
  then show ?thesis using a by (simp add: read_be_def read_byte_def del: len_of_numeral_defs)
qed

lemma zero_frame_decodes:
  "process_packet now (Buffer_view pool (replicate 16 0)) Connection_new = Inr (close Connection_new)"
  by (simp add: process_packet_def read_varint_one_byte Buffer_view_def create_packet_def
      Connection_new_def HANDSHAKING_def packet_read_def read_string_def read_bytes_def
      read_be_u16_zero handle_packet_def handle_handshake_packet_def
      MINECRAFT_PROTOCOL_VERSION_def close_def Let_def)

lemma zero_pool_frame: "map (\<lambda>_. 0 :: byte) [17..<33] = replicate 16 0"
  by (simp add: map_replicate_const del: upt_rec_numeral)

lemma first_round:
  "handle_read_round now (write_bytes handshake_bytes (Buffer_cap (\<lambda>_. 0) 8192)) Connection_new
     = Consumed (replicate 16 0)
         ((write_bytes handshake_bytes (Buffer_cap (\<lambda>_. 0) 8192))\<lparr>m_read_pos := 1\<rparr>)
         (close Connection_new)"
  unfolding received_handshake
  by (simp add: handle_read_round_def hs_prefix hs_frame_memory size_t_16 readable_def
      zero_pool_frame zero_frame_decodes Let_def del: upt_rec_numeral)

lemma empty_frame_throws:
  "process_packet now (Buffer_view pool []) conn = Inl BufferUnderflow"
  by (simp add: process_packet_def read_varint_def read_varint_loop.simps[of 0 0] read_byte_def
      Buffer_view_def)

lemma second_round:
  "handle_read_round now
     ((write_bytes handshake_bytes (Buffer_cap (\<lambda>_. 0) 8192))\<lparr>m_read_pos := Suc 0\<rparr>) conn
     = Thrown ((write_bytes handshake_bytes (Buffer_cap (\<lambda>_. 0) 8192))\<lparr>m_read_pos := 2\<rparr>)
         (close conn)"
  unfolding received_handshake
  by (simp add: handle_read_round_def read_varint_one_byte handshake_bytes_def size_t_0
      readable_def memory_at_def empty_frame_throws Let_def del: upt_rec_numeral)

lemma whole_read:
  "handle_read now handshake_bytes (Buffer_cap (\<lambda>_. 0) 8192) Connection_new
     = ((write_bytes handshake_bytes (Buffer_cap (\<lambda>_. 0) 8192))\<lparr>m_read_pos := 2\<rparr>,
        close Connection_new, False)"
proof -
  define rb0 where "rb0 = write_bytes handshake_bytes (Buffer_cap (\<lambda>_. 0) 8192)"
  have sz: "m_size rb0 = 17" "m_read_pos rb0 = 0"
    unfolding rb0_def received_handshake by (simp_all del: upt_rec_numeral)
  have r0: "readable rb0 > 0" and r1: "readable (rb0\<lparr>m_read_pos := Suc 0\<rparr>) > 0"
    using sz by (simp_all add: readable_def)
  have f: "handle_read_round now rb0 Connection_new
             = Consumed (replicate 16 0) (rb0\<lparr>m_read_pos := Suc 0\<rparr>) (close Connection_new)"
    unfolding rb0_def using first_round[of now] by simp
  have g: "handle_read_round now (rb0\<lparr>m_read_pos := Suc 0\<rparr>) (close Connection_new)
             = Thrown (rb0\<lparr>m_read_pos := 2\<rparr>) (close (close Connection_new))"
    unfolding rb0_def by (rule second_round)
  have "handle_read_loop now rb0 Connection_new
          = handle_read_loop now (rb0\<lparr>m_read_pos := Suc 0\<rparr>) (close Connection_new)"
    using r0 by (subst handle_read_loop.simps) (simp only: f if_True Round.case)
  also have "\<dots> = (rb0\<lparr>m_read_pos := 2\<rparr>, close (close Connection_new), False)"
    using r1 by (subst handle_read_loop.simps) (simp only: g if_True Round.case)
  finally have "handle_read_loop now rb0 Connection_new
                  = (rb0\<lparr>m_read_pos := 2\<rparr>, close (close Connection_new), False)" .
  then show ?thesis unfolding handle_read_def rb0_def by (simp add: close_def)
qed

text \<open>
  C2 (the code differs from the claim). A fresh connection receives the 17 bytes of the
  handshake of boundary scenario 2 in one read; the block of the read buffer holds
  zeros behind them. The first round of the frame loop reads the length prefix 16 and
  calls the decoder, so it consumes the frame. Afterwards the read cursor stands at 1,
  not at the frame's end 17: the 16 bytes of the frame are still unread. The bytes
  handed to the decoder are the 16 bytes that lie behind the received data (from offset
  \<open>size\<close> on), not the frame. The decoder reads protocol version 0 from them and the
  connection is closed. The next round takes the packet id byte \<open>0x00\<close> of the frame
  for a length prefix and hands an empty frame to the decoder, which throws: the whole
  read ends with the cursor at 2, inside the frame, and without a new read started.
\<close>

theorem frame_loop_misreads:
  "\<forall>now.
     (let rb0 = write_bytes handshake_bytes (Buffer_cap (\<lambda>_. 0) 8192);
          frame_end = 1 + 16
      in m_size rb0 = 17
         \<and> take 16 (drop 1 (m_data rb0)) = tl handshake_bytes
         \<and> handle_read_round now rb0 Connection_new
             = Consumed (replicate 16 0) (rb0\<lparr>m_read_pos := 1\<rparr>) (close Connection_new)
         \<and> m_read_pos (rb0\<lparr>m_read_pos := 1\<rparr>) \<noteq> frame_end
         \<and> replicate 16 0 \<noteq> tl handshake_bytes
         \<and> handle_read now handshake_bytes (Buffer_cap (\<lambda>_. 0) 8192) Connection_new
             = (rb0\<lparr>m_read_pos := 2\<rparr>, close Connection_new, False))"
proof -
  have a: "m_size (write_bytes handshake_bytes (Buffer_cap (\<lambda>_. 0) 8192)) = 17"
    and b: "take 16 (drop 1 (m_data (write_bytes handshake_bytes (Buffer_cap (\<lambda>_. 0) 8192))))
              = tl handshake_bytes"
    unfolding received_handshake by (simp_all add: handshake_bytes_def del: upt_rec_numeral)
  have c: "replicate 16 0 \<noteq> tl handshake_bytes"
    by (simp add: handshake_bytes_def numeral_eq_Suc)
  show ?thesis using a b c by (simp add: Let_def first_round whole_read)
qed

section \<open>The phase of a connection\<close>

text \<open>
  C4 (the code differs from the claim). A handshake with the right protocol version
  and next state 3 takes a fresh connection from HANDSHAKING straight to PLAY; next
  state 7 leaves it in a phase that is none of the four; next state 0 keeps it in
  HANDSHAKING.
\<close>

theorem handshake_sets_any_phase:
  "\<forall>now server_address server_port.
     m_state (handle_packet now (HandshakePacket 763 server_address server_port 3) Connection_new) = PLAY
     \<and> \<not> m_closed (handle_packet now (HandshakePacket 763 server_address server_port 3) Connection_new)
     \<and> m_state (handle_packet now (HandshakePacket 763 server_address server_port 7) Connection_new) = 7
     \<and> (7 :: ConnectionState) \<notin> {HANDSHAKING, STATUS, LOGIN, PLAY}
     \<and> m_state (handle_packet now (HandshakePacket 763 server_address server_port 0) Connection_new)
         = HANDSHAKING"
  by (simp add: handle_packet_def handle_handshake_packet_def Connection_new_def
      MINECRAFT_PROTOCOL_VERSION_def HANDSHAKING_def STATUS_def LOGIN_def PLAY_def)

text \<open>Once a connection has left HANDSHAKING, its phase stays or goes from LOGIN to PLAY.\<close>

lemma phase_after_handshake:
  assumes "m_state conn \<noteq> HANDSHAKING"
  shows "m_state (handle_packet now p conn) = m_state conn
         \<or> (m_state conn = LOGIN \<and> m_state (handle_packet now p conn) = PLAY)"
  using assms
  by (auto simp add: handle_packet_def handle_status_packet_def handle_login_packet_def
      handle_play_packet_def send_packet_def close_def Let_def split: Packet.splits)

section \<open>Saving and loading a chunk\<close>

lemma deserialize_sections_keeps_chunk:
  "deserialize_sections n chunk b = Inr (chunk', b') \<Longrightarrow> chunk' = chunk"
  by (induction n arbitrary: b) (auto split: sum.splits if_splits prod.splits)

lemma deserialize_chunk_result:
  assumes "deserialize_chunk pos b = Inr c"
  shows "c = (Chunk_new pos)\<lparr>m_loaded := True\<rparr>"
proof -
  from assms obtain n b1 chunk1 b2 where
    d: "deserialize_sections n (Chunk_new pos) b1 = Inr (chunk1, b2)"
    and c: "c = chunk1\<lparr>m_loaded := True, m_dirty := False\<rparr>"
    by (auto simp add: deserialize_chunk_def Let_def split: sum.splits prod.splits)
  from d have "chunk1 = Chunk_new pos" by (rule deserialize_sections_keeps_chunk)
  then show ?thesis using c by (simp add: Chunk_new_def)
qed

lemma section_idx_ok_unat: "section_idx_ok i \<Longrightarrow> unat i < 24"
proof -
  assume "section_idx_ok i"
  then have a: "0 \<le> sint i" "sint i < 24"
    by (simp_all add: section_idx_ok_def SECTIONS_PER_CHUNK_24)
  then have "uint i = sint i"
    by (simp add: uint_sint take_bit_int_eq_self)
  then show ?thesis using a by (simp add: unat_eq_nat_uint)
qed


text \<open>
  Whatever the region file holds, a chunk that \<open>load_chunk\<close> returns is the empty chunk:
  it has no section, every block is air and every block light is 0.
\<close>

lemma loaded_chunk_has_no_sections:
  assumes "WorldPersistence_load_chunk pool pos wp = Some c"
  shows "c = (Chunk_new pos)\<lparr>m_loaded := True\<rparr>
         \<and> (\<forall>x y z. Chunk_get_block c x y z = AIR \<and> Chunk_get_block_light c x y z = 0)"
proof -
  from assms obtain b where "deserialize_chunk pos b = Inr c"
    by (auto simp add: WorldPersistence_load_chunk_def Let_def split: if_splits sum.splits)
  then have c: "c = (Chunk_new pos)\<lparr>m_loaded := True\<rparr>" by (rule deserialize_chunk_result)
  have "Chunk_get_block c x y z = AIR \<and> Chunk_get_block_light c x y z = 0" for x y z
    unfolding c
    by (auto simp add: Chunk_get_block_def Chunk_get_block_light_def Chunk_new_def Let_def
        SECTIONS_PER_CHUNK_24 dest: section_idx_ok_unat)
  then show ?thesis using c by blast
qed


lemma foldl_write_byte_content:
  "buffer_ok b \<Longrightarrow>
   buffer_ok (foldl (\<lambda>b i. write_byte (f i) b) b xs)
   \<and> content (foldl (\<lambda>b i. write_byte (f i) b) b xs) = content b @ map f xs"
  by (induction xs arbitrary: b) (simp_all add: write_byte_def write_bytes_ok)

lemma write_be_content:
  assumes "buffer_ok b"
  shows "buffer_ok (write_be v b) \<and> content (write_be v b) = content b @ be_bytes v"
proof (cases "LENGTH('a) div 8 = 1")
  case True
  then show ?thesis using assms
    by (simp add: write_be_def be_bytes_def write_byte_def write_bytes_ok)
next
  case False
  then show ?thesis
    using foldl_write_byte_content[OF assms, of "\<lambda>i. ucast (drop_bit (i * 8) v)"]
    by (simp add: write_be_def be_bytes_def)
qed

lemma foldl_write_be_content:
  "buffer_ok b \<Longrightarrow>
   buffer_ok (foldl (\<lambda>b i. write_be (g i) b) b xs)
   \<and> content (foldl (\<lambda>b i. write_be (g i) b) b xs) = content b @ concat (map (\<lambda>i. be_bytes (g i)) xs)"
  by (induction xs arbitrary: b) (simp_all add: write_be_content)

lemma serialize_section_content:
  assumes "buffer_ok b"
  shows "buffer_ok (serialize_section sec b)
         \<and> content (serialize_section sec b) = content b @ section_bytes sec"
proof (cases sec)
  case None
  then show ?thesis using assms
    by (simp add: serialize_section_def section_bytes_def write_byte_def write_bytes_ok)
next
  case (Some s)
  let ?b1 = "write_byte 1 b"
  let ?b2 = "write_be (block_count s) ?b1"
  let ?g = "\<lambda>i. ChunkSection_get_block s (block_x i) (block_y i) (block_z i)"
  let ?b3 = "foldl (\<lambda>b i. write_be (?g i) b) ?b2 [0..<BLOCKS_PER_SECTION]"
  have 1: "buffer_ok ?b1" "content ?b1 = content b @ [1]"
    using assms by (simp_all add: write_byte_def write_bytes_ok)
  have 2: "buffer_ok ?b2" "content ?b2 = content ?b1 @ be_bytes (block_count s)"
    using write_be_content[OF 1(1), of "block_count s"] by simp_all
  have 3: "buffer_ok ?b3"
    "content ?b3 = content ?b2 @ concat (map (\<lambda>i. be_bytes (?g i)) [0..<BLOCKS_PER_SECTION])"
    using foldl_write_be_content[OF 2(1), of ?g] by simp_all
  show ?thesis using Some 1 2 3
    by (simp add: serialize_section_def section_bytes_def Let_def write_bytes_ok)
qed

lemma foldl_serialize_section_content:
  "buffer_ok b \<Longrightarrow>
   buffer_ok (foldl (\<lambda>b section. serialize_section section b) b secs)
   \<and> content (foldl (\<lambda>b section. serialize_section section b) b secs)
       = content b @ concat (map section_bytes secs)"
  by (induction secs arbitrary: b) (simp_all add: serialize_section_content)

lemma serialize_chunk_content:
  assumes "buffer_ok b"
  shows "buffer_ok (serialize_chunk c b) \<and> content (serialize_chunk c b) = content b @ chunk_bytes c"
proof -
  let ?b1 = "write_be (word_of_nat (length (m_sections c)) :: i32) b"
  have 1: "buffer_ok ?b1" "content ?b1 = content b @ be_bytes (word_of_nat (length (m_sections c)) :: i32)"
    using write_be_content[OF assms, of "word_of_nat (length (m_sections c)) :: i32"] by simp_all
  show ?thesis
    using foldl_serialize_section_content[OF 1(1), of "m_sections c"] 1(2)
    by (simp add: serialize_chunk_def chunk_bytes_def get_sections_def Let_def)
qed

lemma Buffer_cap_ok: "buffer_ok (Buffer_cap pool n) \<and> content (Buffer_cap pool n) = []"
  by (simp add: buffer_ok_def content_def Buffer_cap_def)


lemma adv_adv [simp]: "adv j (adv k b) = adv (k + j) b"
  by (simp add: adv_def add.assoc)

lemma adv_0 [simp]: "adv 0 b = b"
  by (simp add: adv_def)

lemma unread_adv: "unread (adv k b) = drop k (unread b)"
  by (simp add: unread_def content_def adv_def add.commute)

lemma read_byte_adv:
  "unread b = x # xs \<Longrightarrow> read_byte b = Inr (x, adv 1 b)"
  using read_byte_unread(1)[of b x xs] by (simp add: adv_def)

lemma unread_nonempty:
  assumes "0 < length (unread b)"
  shows "\<exists>x. read_byte b = Inr (x, adv 1 b)"
proof -
  from assms obtain x xs where "unread b = x # xs" by (cases "unread b") auto
  then show ?thesis using read_byte_adv by blast
qed

lemma read_be_loop_adv:
  "n \<le> length (unread b) \<Longrightarrow> \<exists>v. read_be_loop n acc b = Inr (v, adv n b)"
proof (induction n arbitrary: acc b)
  case 0
  then show ?case by simp
next
  case (Suc n)
  have "0 < length (unread b)" using Suc.prems by (cases "unread b") auto
  then obtain x where x: "read_byte b = Inr (x, adv 1 b)"
    using unread_nonempty by blast
  have "n \<le> length (unread (adv 1 b))" using Suc.prems by (simp add: unread_adv)
  from Suc.IH[OF this, of "push_bit 8 acc OR ucast x"] obtain v where
    "read_be_loop n (push_bit 8 acc OR ucast x) (adv 1 b) = Inr (v, adv n (adv 1 b))" by blast
  then show ?case using x by simp
qed

lemma read_be_adv:
  assumes "LENGTH('a::len) div 8 \<le> length (unread b)"
  shows "\<exists>v. (read_be b :: error + ('a word \<times> Buffer)) = Inr (v, adv (LENGTH('a) div 8) b)"
proof (cases "LENGTH('a) div 8 = 1")
  case True
  then have "0 < length (unread b)" using assms by (cases "unread b") auto
  then obtain x where "read_byte b = Inr (x, adv 1 b)"
    using unread_nonempty by blast
  then show ?thesis using True by (simp add: read_be_def)
next
  case False
  then show ?thesis using read_be_loop_adv[OF assms, of 0] by (simp add: read_be_def)
qed

lemma set_block_lights [simp]:
  "block_light (ChunkSection_set_block x y z blk s) = block_light s"
  "sky_light (ChunkSection_set_block x y z blk s) = sky_light s"
  by (simp_all add: ChunkSection_set_block_def Let_def)

lemma read_blocks_adv:
  "2 * n \<le> length (unread b) \<Longrightarrow>
   \<exists>s'. read_blocks n i s b = Inr (s', adv (2 * n) b)
        \<and> block_light s' = block_light s \<and> sky_light s' = sky_light s"
proof (induction n arbitrary: i s b)
  case 0
  then show ?case by simp
next
  case (Suc n)
  have "LENGTH(16) div 8 \<le> length (unread b)" using Suc.prems by simp
  from read_be_adv[OF this] obtain v :: u16 where v: "read_be b = Inr (v, adv 2 b)" by auto
  have "2 * n \<le> length (unread (adv 2 b))" using Suc.prems by (simp add: unread_adv)
  from Suc.IH[OF this, of "Suc i" "ChunkSection_set_block (block_x i) (block_y i) (block_z i) v s"]
  show ?case using v by (simp add: add.commute)
qed

lemma length_unread: "length (unread b) \<le> m_size b - m_read_pos b"
  by (simp add: unread_def content_def)

lemma read_into_adv:
  assumes "length arr \<le> length (unread b)"
  shows "snd (read_into arr b) = adv (length arr) b"
proof -
  have "length arr \<le> m_size b - m_read_pos b" using assms length_unread[of b] by simp
  then show ?thesis
    by (cases "length arr = 0") (simp_all add: read_into_def read_bytes_def Let_def adv_def min_def)
qed

lemma deserialize_section_adv:
  assumes "12290 \<le> length (unread b)"
  shows "\<exists>s. deserialize_section b = Inr (s, adv 12290 b)"
proof -
  have "LENGTH(16) div 8 \<le> length (unread b)" using assms by simp
  from read_be_adv[OF this] obtain count :: i16 where c: "read_be b = Inr (count, adv 2 b)" by auto
  let ?s0 = "ChunkSection_new\<lparr>block_count := count\<rparr>"
  have "2 * 4096 \<le> length (unread (adv 2 b))" using assms by (simp add: unread_adv)
  from read_blocks_adv[OF this, of 0 ?s0] obtain s1 where
    s1: "read_blocks 4096 0 ?s0 (adv 2 b) = Inr (s1, adv 8194 b)"
    and l: "block_light s1 = block_light ?s0" "sky_light s1 = sky_light ?s0" by auto
  have len: "length (block_light s1) = 2048" "length (sky_light s1) = 2048"
    using l by (simp_all add: ChunkSection_new_def BLOCKS_PER_SECTION_def)
  have "length (block_light s1) \<le> length (unread (adv 8194 b))"
    using assms len by (simp add: unread_adv)
  then have a: "snd (read_into (block_light s1) (adv 8194 b)) = adv 10242 b"
    using read_into_adv[of "block_light s1" "adv 8194 b"] len by simp
  have "length (sky_light s1) \<le> length (unread (adv 10242 b))"
    using assms len by (simp add: unread_adv)
  then have b: "snd (read_into (sky_light s1) (adv 10242 b)) = adv 12290 b"
    using read_into_adv[of "sky_light s1" "adv 10242 b"] len by simp
  show ?thesis
    using c s1 a b
    by (simp add: deserialize_section_def BLOCKS_PER_SECTION_def split_beta Let_def)
qed

lemma length_be_bytes: "length (be_bytes (v :: 'a::len word)) = LENGTH('a) div 8"
  by (simp add: be_bytes_def)

lemma length_concat_be_bytes:
  "length (concat (map (\<lambda>i. be_bytes (g i :: 'a::len word)) xs)) = length xs * (LENGTH('a) div 8)"
  by (induction xs) (simp_all add: length_be_bytes)

lemma section_bytes_None: "section_bytes None = [0]"
  by (simp add: section_bytes_def)

lemma length_section_bytes:
  "section_ok (Some s) \<Longrightarrow> length (section_bytes (Some s)) = 12291"
  using length_concat_be_bytes[of "\<lambda>i. ChunkSection_get_block s (block_x i) (block_y i) (block_z i)" "[0..<4096]"]
  by (simp add: section_bytes_def section_ok_def length_be_bytes BLOCKS_PER_SECTION_def
      del: upt_rec_numeral)

lemma deserialize_sections_content:
  "unread b = concat (map section_bytes secs) @ rest \<Longrightarrow> \<forall>sec \<in> set secs. section_ok sec \<Longrightarrow>
   \<exists>b'. deserialize_sections (length secs) chunk b = Inr (chunk, b')"
proof (induction secs arbitrary: b)
  case Nil
  then show ?case by simp
next
  case (Cons sec secs)
  show ?case
  proof (cases sec)
    case None
    then have u: "unread b = 0 # (concat (map section_bytes secs) @ rest)"
      using Cons.prems(1) by (simp add: section_bytes_None)
    have rb: "read_byte b = Inr (0, adv 1 b)" using read_byte_adv[OF u] .
    have "unread (adv 1 b) = concat (map section_bytes secs) @ rest"
      using u by (simp add: unread_adv)
    from Cons.IH[OF this] Cons.prems(2) show ?thesis using rb by simp
  next
    case (Some s)
    then have ok: "section_ok (Some s)" using Cons.prems(2) by simp
    obtain body where body: "section_bytes (Some s) = 1 # body" "length body = 12290"
      using length_section_bytes[OF ok] by (cases "section_bytes (Some s)") (auto simp add: section_bytes_def)
    then have u: "unread b = 1 # (body @ concat (map section_bytes secs) @ rest)"
      using Cons.prems(1) Some by simp
    have rb: "read_byte b = Inr (1, adv 1 b)" using read_byte_adv[OF u] .
    have u1: "unread (adv 1 b) = body @ concat (map section_bytes secs) @ rest"
      using u by (simp add: unread_adv)
    then have "12290 \<le> length (unread (adv 1 b))" using body(2) by simp
    from deserialize_section_adv[OF this] obtain s' where
      ds: "deserialize_section (adv 1 b) = Inr (s', adv 12291 b)" by auto
    have "unread (adv 12291 b) = concat (map section_bytes secs) @ rest"
      using u body(2) by (simp add: unread_adv)
    from Cons.IH[OF this] Cons.prems(2) show ?thesis using rb ds by simp
  qed
qed


lemma unread_view [simp]: "unread (Buffer_view pool xs) = xs"
  by (simp add: unread_def content_def Buffer_view_def)

lemma be_bytes_24: "be_bytes (24 :: i32) = [0, 0, 0, 24]"
  by (simp add: be_bytes_def upt_rec)

lemma read_be_loop_numeral:
  "read_be_loop (numeral k) acc b =
     (case read_byte b of
        Inl e \<Rightarrow> Inl e
      | Inr (x, b') \<Rightarrow> read_be_loop (pred_numeral k) (push_bit 8 acc OR ucast x) b')"
  by (simp add: numeral_eq_Suc)

lemma read_be_i32_24:
  assumes "unread b = [0, 0, 0, 24] @ rest"
  shows "(read_be b :: error + (i32 \<times> Buffer)) = Inr (24, adv 4 b)"
proof -
  have u0: "unread b = 0 # ([0, 0, 24] @ rest)" using assms by simp
  have u1: "unread (adv 1 b) = 0 # ([0, 24] @ rest)" using assms by (simp add: unread_adv)
  have u2: "unread (adv 2 b) = 0 # ([24] @ rest)" using assms by (simp add: unread_adv)
  have u3: "unread (adv 3 b) = 24 # rest" using assms by (simp add: unread_adv)
  have r: "read_byte b = Inr (0, adv 1 b)" "read_byte (adv 1 b) = Inr (0, adv 2 b)"
    "read_byte (adv 2 b) = Inr (0, adv 3 b)" "read_byte (adv 3 b) = Inr (24, adv 4 b)"
    using read_byte_adv[OF u0] read_byte_adv[OF u1] read_byte_adv[OF u2] read_byte_adv[OF u3]
    by (simp_all add: numeral_2_eq_2[symmetric])
  show ?thesis using r
    by (simp add: read_be_def read_be_loop_numeral numeral_2_eq_2[symmetric])
qed

lemma deserialize_serialized:
  assumes "length (m_sections c) = 24" and "\<forall>sec \<in> set (m_sections c). section_ok sec"
  shows "deserialize_chunk pos (Buffer_view pool (chunk_bytes c @ rest))
           = Inr ((Chunk_new pos)\<lparr>m_loaded := True\<rparr>)"
proof -
  let ?b = "Buffer_view pool (chunk_bytes c @ rest)"
  have u: "unread ?b = [0, 0, 0, 24] @ (concat (map section_bytes (m_sections c)) @ rest)"
    using assms(1) by (simp add: chunk_bytes_def be_bytes_24)
  have rb: "(read_be ?b :: error + (i32 \<times> Buffer)) = Inr (24, adv 4 ?b)"
    by (rule read_be_i32_24[OF u])
  have "unread (adv 4 ?b) = concat (map section_bytes (m_sections c)) @ rest"
    using u by (simp add: unread_adv)
  from deserialize_sections_content[OF this assms(2), of "Chunk_new pos"] obtain b' where
    "deserialize_sections 24 (Chunk_new pos) (adv 4 ?b) = Inr (Chunk_new pos, b')"
    using assms(1) by auto
  then show ?thesis using rb by (simp add: deserialize_chunk_def Chunk_new_def)
qed

lemma replicate_24: "replicate 24 x = x # replicate 23 x"
proof -
  have "(24::nat) = Suc 23" by simp
  then show ?thesis by (simp only: replicate_Suc)
qed

lemma stone_chunk_sections:
  "m_sections stone_chunk
     = Some (ChunkSection_set_block 0 0 0 STONE ChunkSection_new) # replicate 23 None"
  "m_dirty stone_chunk" "m_position stone_chunk = (0, 0)"
  by (simp_all add: stone_chunk_def Chunk_set_block_def Chunk_new_def get_section_index_def
      idiv_def WORLD_MIN_Y_def SECTIONS_PER_CHUNK_24 section_idx_ok_def signed_divide_int_def
      get_or_create_section_def local_y_of_def Let_def replicate_24)

lemma stone_chunk_ok:
  "length (m_sections stone_chunk) = 24" "\<forall>sec \<in> set (m_sections stone_chunk). section_ok sec"
  by (auto simp add: stone_chunk_sections section_ok_def ChunkSection_new_def BLOCKS_PER_SECTION_def)

lemma length_concat_singletons: "length (concat (replicate n [x])) = n"
  by (induction n) simp_all

lemma length_chunk_bytes_stone: "length (chunk_bytes stone_chunk) = 12318"
proof -
  have ok: "section_ok (Some (ChunkSection_set_block 0 0 0 STONE ChunkSection_new))"
    by (simp add: section_ok_def ChunkSection_new_def BLOCKS_PER_SECTION_def)
  show ?thesis
    by (simp add: chunk_bytes_def stone_chunk_sections be_bytes_24 length_section_bytes[OF ok]
        section_bytes_None length_concat_singletons)
qed


lemma length_concat_be32: "length (concat (map be32 xs)) = 4 * length xs"
  by (induction xs) (simp_all add: be32_def)

lemma serialized_stone:
  "take 12318 (m_data (serialize_chunk stone_chunk (Buffer_cap pool 65536))) = chunk_bytes stone_chunk"
  "m_size (serialize_chunk stone_chunk (Buffer_cap pool 65536)) = 12318"
proof -
  let ?cd = "serialize_chunk stone_chunk (Buffer_cap pool 65536)"
  have ok: "buffer_ok (Buffer_cap pool 65536)" and e: "content (Buffer_cap pool 65536) = []"
    using Buffer_cap_ok[of pool 65536] by simp_all
  have c: "buffer_ok ?cd" "content ?cd = chunk_bytes stone_chunk"
    using serialize_chunk_content[OF ok, of stone_chunk] e by simp_all
  have "length (content ?cd) = m_size ?cd" using c(1) by (simp add: content_def buffer_ok_def)
  then show sz: "m_size ?cd = 12318" using c(2) length_chunk_bytes_stone by simp
  show "take 12318 (m_data ?cd) = chunk_bytes stone_chunk"
    using c(2) sz by (simp add: content_def)
qed

lemma save_stone_chunk:
  "WorldPersistence_save_chunk pool now stone_chunk (\<lambda>_. empty_region)
     = (True, stone_chunk\<lparr>m_dirty := False\<rparr>, (\<lambda>_. empty_region)((0, 0) := saved_region now))"
  by (simp add: WorldPersistence_save_chunk_def stone_chunk_sections(2,3) region_coords_origin
      chunk_index_origin serialized_stone empty_region_def saved_region_def Let_def
      save_region_header_def length_concat_be32)

lemma load_saved_stone_chunk:
  "WorldPersistence_load_chunk pool (0, 0) ((\<lambda>_. empty_region)((0, 0) := saved_region now))
     = Some ((Chunk_new (0, 0))\<lparr>m_loaded := True\<rparr>)"
proof -
  have h: "length (concat (map be32 ((replicate 1024 0)[0 := 0x204]))
                  @ concat (map be32 ((replicate 1024 0)[0 := now]))) = 8192"
    by (simp add: length_concat_be32)
  have loc: "(replicate 1024 (0::u32))[0 := 0x204] ! 0 = 0x204" by simp
  have off: "unat ((drop_bit 8 (0x204::u32) AND 0xFFFFFF) * 4096) = 8192"
    and cnt: "unat (((0x204::u32) AND 0xFF) * 4096) = 16384" by simp_all
  have got: "take 16384 (drop 8192 (rf_file (saved_region now)))
               = chunk_bytes stone_chunk @ replicate 4066 0"
    using h by (simp add: saved_region_def length_chunk_bytes_stone)
  have d: "deserialize_chunk (0, 0) (Buffer_view pool (chunk_bytes stone_chunk @ replicate 4066 0))
             = Inr ((Chunk_new (0, 0))\<lparr>m_loaded := True\<rparr>)"
    by (rule deserialize_serialized[OF stone_chunk_ok])
  have l2: "rf_locations (saved_region now) ! 0 = 0x204" "rf_is_open (saved_region now)"
    using loc by (simp_all add: saved_region_def)
  have len: "length (rf_file (saved_region now)) = 24576"
    using h by (simp add: saved_region_def length_chunk_bytes_stone)
  have nz: "(0x204::u32) \<noteq> 0" "drop_bit 8 (0x204::u32) AND 0xFFFFFF \<noteq> 0" "(0x204::u32) AND 0xFF \<noteq> 0"
    by simp_all
  show ?thesis
    using l2 nz off cnt got d len
    by (simp add: WorldPersistence_load_chunk_def region_coords_origin chunk_index_origin Let_def
        length_chunk_bytes_stone)
qed

lemma stone_chunk_block: "Chunk_get_block stone_chunk 0 (- 64) 0 = STONE"
  by (simp add: stone_chunk_def Chunk_get_block_def Chunk_set_block_def Chunk_new_def
      get_section_index_def idiv_def WORLD_MIN_Y_def WORLD_MAX_Y_def SECTIONS_PER_CHUNK_def
      section_idx_ok_def signed_divide_int_def get_or_create_section_def ChunkSection_new_def
      ChunkSection_set_block_def ChunkSection_get_block_def section_index_def index_ok_def
      local_y_of_def SECTION_SIZE_def BLOCKS_PER_SECTION_def is_air_def AIR_def STONE_def Let_def)

text \<open>
  C1 (the code differs from the claim). The chunk with one stone block at
  \<open>(0, -64, 0)\<close> is saved into an empty region file and loaded again. The save
  succeeds and the load returns a chunk, but that chunk has no sections: the block that
  was stone reads as air. \<open>deserialize_chunk\<close> builds every section it reads and drops
  it.
\<close>

theorem save_then_load_loses_blocks:
  "\<forall>pool now.
     fst (WorldPersistence_save_chunk pool now stone_chunk (\<lambda>_. empty_region))
     \<and> WorldPersistence_load_chunk pool (m_position stone_chunk)
           (snd (snd (WorldPersistence_save_chunk pool now stone_chunk (\<lambda>_. empty_region))))
         = Some ((Chunk_new (0, 0))\<lparr>m_loaded := True\<rparr>)
     \<and> Chunk_get_block stone_chunk 0 (- 64) 0 = STONE
     \<and> Chunk_get_block ((Chunk_new (0, 0))\<lparr>m_loaded := True\<rparr>) 0 (- 64) 0 = AIR
     \<and> STONE \<noteq> AIR"
proof -
  have "Chunk_get_block ((Chunk_new (0, 0))\<lparr>m_loaded := True\<rparr>) 0 (- 64) 0 = AIR"
    using loaded_chunk_has_no_sections[OF load_saved_stone_chunk] by blast
  then show ?thesis
    by (simp add: save_stone_chunk load_saved_stone_chunk stone_chunk_sections(3)
        stone_chunk_block STONE_def AIR_def)
qed

section \<open>Sky light of an untouched chunk, for every height\<close>

text \<open>
  The section index is a division that rounds towards zero, so the heights accepted by the
  range check of \<open>Chunk::get_sky_light\<close> are those with \<open>-16 < y - WORLD_MIN_Y < 384\<close>:
  the sixteen heights below the world are accepted with the in-world ones.
\<close>

lemma sint_word_of_int_small:
  fixes k :: int
  assumes "- 2147483648 \<le> k" "k < 2147483648"
  shows "sint (word_of_int k :: i32) = k"
  using assms by (simp add: sint_sbintrunc' signed_take_bit_int_eq_self)

lemma sdiv16_bounds:
  fixes t :: int
  shows "0 \<le> t sdiv 16 \<and> t sdiv 16 < 24 \<longleftrightarrow> - 16 < t \<and> t < 384"
proof (cases "0 \<le> t")
  case True
  then have "t sdiv 16 = t div 16" by (simp add: signed_divide_int_def sgn_if)
  then show ?thesis using True by auto
next
  case False
  then have e: "t sdiv 16 = - ((- t) div 16)" by (simp add: signed_divide_int_def sgn_if)
  show ?thesis
  proof (cases "- 16 < t")
    case True
    then have "(- t) div 16 = 0" using False by simp
    then show ?thesis using e True False by simp
  next
    case False
    then have "1 \<le> (- t) div 16" by simp
    then show ?thesis using e False by simp
  qed
qed

lemma sdiv16_range:
  fixes t :: int
  assumes "- 2147483648 \<le> t" "t < 2147483648"
  shows "- 2147483648 \<le> t sdiv 16" "t sdiv 16 < 2147483648"
proof -
  have "- 2147483648 \<le> t sdiv 16 \<and> t sdiv 16 < 2147483648"
  proof (cases "0 \<le> t")
    case True
    then have "t sdiv 16 = t div 16" by (simp add: signed_divide_int_def sgn_if)
    then show ?thesis using True assms by (simp only:) arith
  next
    case False
    then have "t sdiv 16 = - ((- t) div 16)" by (simp add: signed_divide_int_def sgn_if)
    then show ?thesis using False assms by (simp only:) arith
  qed
  then show "- 2147483648 \<le> t sdiv 16" "t sdiv 16 < 2147483648" by simp_all
qed

lemma fresh_chunk_sky_light:
  "Chunk_get_sky_light (Chunk_new pos) x y z
     = (if - 16 < sint (y - WORLD_MIN_Y) \<and> sint (y - WORLD_MIN_Y) < 384 then 15 else 0)"
proof -
  let ?t = "sint (y - WORLD_MIN_Y)"
  have r: "- 2147483648 \<le> ?t" "?t < 2147483648"
    using sint_ge[of "y - WORLD_MIN_Y"] sint_lt[of "y - WORLD_MIN_Y"] by simp_all
  have s: "sint (get_section_index y) = ?t sdiv 16"
    using sint_word_of_int_small[OF sdiv16_range[OF r]]
    by (simp add: get_section_index_def idiv_def)
  have ok: "section_idx_ok (get_section_index y) \<longleftrightarrow> - 16 < ?t \<and> ?t < 384"
    using sdiv16_bounds[of ?t] by (auto simp add: section_idx_ok_def s SECTIONS_PER_CHUNK_24)
  show ?thesis
    using ok section_idx_ok_unat[of "get_section_index y"]
    by (auto simp add: Chunk_get_sky_light_def Chunk_new_def Let_def SECTIONS_PER_CHUNK_24)
qed

lemma fresh_chunk_sky_light_in_world:
  assumes "- 64 \<le> sint y" "sint y < 320"
  shows "Chunk_get_sky_light (Chunk_new pos) x y z = 15"
proof -
  have "y - WORLD_MIN_Y = word_of_int (sint y + 64)" by (simp add: WORLD_MIN_Y_def)
  moreover have "sint (word_of_int (sint y + 64) :: i32) = sint y + 64"
    using assms by (intro sint_word_of_int_small) simp_all
  ultimately have "sint (y - WORLD_MIN_Y) = sint y + 64" by (simp only:)
  then show ?thesis using assms by (simp add: fresh_chunk_sky_light)
qed

end
